theory Spec2Isabelle
  imports Complex_Main "HOL-Library.AList"
begin

section \<open>Idle transactions: data model\<close>

text \<open>
  The module under study defines two classes: \<open>IdleTransactionSpanRecorder\<close> (a span
  recorder whose \<open>add\<close> patches the added span's \<open>finish\<close> property) and
  \<open>IdleTransaction\<close> (activity bookkeeping, a self-rescheduling heartbeat and
  \<open>_finishIdleTransaction\<close>). JavaScript objects are shared and mutated in place, so
  span objects live in a store indexed by references; the transaction is the object at
  reference \<open>self\<close>. Method names lose their leading underscore, which an Isabelle
  identifier cannot start with.

  Numbers are rationals (timestamps are seconds, timeouts milliseconds); NaN and the
  infinities are outside the model.
\<close>

type_synonym ref = nat

datatype SpanStatus = Ok | Cancelled | DeadlineExceeded

text \<open>The two exceptions the module can raise: a property access on \<open>undefined\<close> and
  the exhaustion of the call stack.\<close>

datatype error = TypeError | RangeError

text \<open>
  \<open>initSpanRecorder\<close> hands \<open>this._popActivity\<close> and \<open>this._pushActivity\<close> over as
  plain function values (the linter's unbound-method rule is switched off right above).
  A function value does not remember the object it was read from: the receiver is
  whatever object it is later called on. \<open>activity_fn\<close> names the function,
  \<open>receiver\<close> the object bound to \<open>this\<close> at the call.
\<close>

datatype activity_fn = FnPushActivity | FnPopActivity

datatype receiver = ThisTransaction | ThisRecorder

text \<open>
  What the \<open>finish\<close> property of a span object currently holds: the method inherited
  from the prototype, or the arrow function \<open>add\<close> stores, which closes over the span
  and over the recorder (whose \<open>_popActivity\<close> field is read-only, so its value at the
  time of \<open>add\<close> is the one the closure sees).
\<close>

datatype finish_fn = ProtoFinish | PatchedFinish "activity_fn option"

record span =
  spanId :: string
  startTimestamp :: rat
  endTimestamp :: "rat option"
  status :: "SpanStatus option"
  tags :: "(string \<times> string) list"
  finish :: finish_fn

text \<open>
  The recorder of the transaction. \<open>spanRecorder\<close> is declared with the base type
  \<open>SpanRecorder\<close>, so it may hold a plain recorder assigned from outside
  (\<open>idleAware = False\<close>) or the \<open>IdleTransactionSpanRecorder\<close> that
  \<open>initSpanRecorder\<close> creates; the two callbacks are optional constructor arguments.
\<close>

record recorder =
  spans :: "ref list"
  maxlen :: "nat option"
  idleAware :: bool
  recPushActivity :: "activity_fn option"
  recPopActivity :: "activity_fn option"

datatype callback = CbBeat | CbFinishIdle rat

record timer =
  timerId :: nat
  delay :: rat
  timerCallback :: callback

datatype log_entry =
    LogHeartbeatSafeguard
  | LogCancelling string
  | LogDiscarding string
  | LogFlushing
  | LogNoActive

text \<open>
  The fields of \<open>IdleTransaction\<close> (\<open>idleTimeout\<close> to \<open>spanRecorder\<close>) and the part
  of the environment the module talks to: the clock read by \<open>timestampWithMs()\<close>, the
  host's pending timers, the logger, and the list of calls that reached the underlying
  \<open>Transaction.finish\<close>, each with the argument it was given.
\<close>

record state =
  heap :: "ref \<Rightarrow> span"
  self :: ref
  idleTimeout :: rat
  activities :: "(string \<times> bool) list"
  heartbeatTimer :: nat
  prevHeartbeatString :: "string option"
  heartbeatCounter :: nat
  spanRecorder :: "recorder option"
  now :: rat
  timers :: "timer list"
  nextTimerId :: nat
  logs :: "log_entry list"
  finishCalls :: "rat option list"

text \<open>A call either returns or throws; the state reached is kept in both cases, since
  every mutation made before a throw stays.\<close>

type_synonym outcome = "error option \<times> state"

section \<open>The host environment\<close>

definition logMsg :: "log_entry \<Rightarrow> state \<Rightarrow> state" where
  "logMsg m s = s\<lparr>logs := logs s @ [m]\<rparr>"

definition setTimeout :: "callback \<Rightarrow> rat \<Rightarrow> state \<Rightarrow> nat \<times> state" where
  "setTimeout cb ms s =
     (nextTimerId s,
      s\<lparr>timers := timers s @ [\<lparr>timerId = nextTimerId s, delay = ms, timerCallback = cb\<rparr>],
        nextTimerId := Suc (nextTimerId s)\<rparr>)"

definition clearTimeout :: "nat \<Rightarrow> state \<Rightarrow> state" where
  "clearTimeout tid s = s\<lparr>timers := filter (\<lambda>t. timerId t \<noteq> tid) (timers s)\<rparr>"

text \<open>
  \<open>Object.keys\<close> of an object whose own properties are the entries of an association
  list in insertion order: the keys that are array indices (canonical decimal numerals
  below \<open>2^32 - 1\<close>) come first in ascending numeric order, the others follow in
  insertion order.
\<close>

definition isDigit :: "char \<Rightarrow> bool" where
  "isDigit c = (c \<in> set ''0123456789'')"

definition digitValue :: "char \<Rightarrow> nat" where
  "digitValue c = of_char c - 48"

definition numericValue :: "string \<Rightarrow> nat" where
  "numericValue k = foldl (\<lambda>acc c. 10 * acc + digitValue c) 0 k"

definition isArrayIndex :: "string \<Rightarrow> bool" where
  "isArrayIndex k =
     (case k of
        [] \<Rightarrow> False
      | c # cs \<Rightarrow> list_all isDigit k \<and> (if c = CHR ''0'' then cs = [] else True)
                 \<and> numericValue k < 4294967295)"

definition Object_keys :: "(string \<times> 'v) list \<Rightarrow> string list" where
  "Object_keys obj =
     (let ks = map fst obj
      in sort_key numericValue (filter isArrayIndex ks) @ filter (\<lambda>k. \<not> isArrayIndex k) ks)"

text \<open>JavaScript's \<open>!x\<close> on an optional number: \<open>undefined\<close> and \<open>0\<close> are falsy.\<close>

definition falsy :: "rat option \<Rightarrow> bool" where
  "falsy x = (case x of None \<Rightarrow> True | Some t \<Rightarrow> t = 0)"

section \<open>Methods inherited from Span, Transaction and SpanRecorder\<close>

definition updSpan :: "ref \<Rightarrow> (span \<Rightarrow> span) \<Rightarrow> state \<Rightarrow> state" where
  "updSpan r f s = s\<lparr>heap := (heap s)(r := f (heap s r))\<rparr>"

text \<open>
  Modelled from the spec: \<open>Span.setStatus\<close> and \<open>Span.setTag\<close> are declared in a
  module that is not part of the sources at hand. The spec has a span carry a status
  and a map of attributes; the setters store the value given.
\<close>

definition setStatus :: "ref \<Rightarrow> SpanStatus \<Rightarrow> state \<Rightarrow> state" where
  "setStatus r v s = updSpan r (\<lambda>sp. sp\<lparr>status := Some v\<rparr>) s"

definition setTag :: "ref \<Rightarrow> string \<Rightarrow> string \<Rightarrow> state \<Rightarrow> state" where
  "setTag r k v s = updSpan r (\<lambda>sp. sp\<lparr>tags := AList.update k v (tags sp)\<rparr>) s"

text \<open>
  Modelled from the spec: \<open>Span.finish\<close> and \<open>Transaction.finish\<close> are not part of the
  sources at hand. The spec gives \<open>finish(optionalTimestamp)\<close>: the end time becomes the
  timestamp given, or the clock's reading when none is given, and a transaction is then
  handed to the delivery sink. \<open>finishCalls\<close> records each call on the transaction with
  the argument it received.
\<close>

definition protoFinish :: "ref \<Rightarrow> rat option \<Rightarrow> state \<Rightarrow> state" where
  "protoFinish r e s =
     (let t = (case e of Some x \<Rightarrow> x | None \<Rightarrow> now s);
          s1 = updSpan r (\<lambda>sp. sp\<lparr>endTimestamp := Some t\<rparr>) s
      in if r = self s then s1\<lparr>finishCalls := finishCalls s1 @ [e]\<rparr> else s1)"

text \<open>
  Modelled from the spec: \<open>SpanRecorder.add\<close> is not part of the sources at hand. The
  spec has the recorder append, and drop the oldest entries beyond its capacity; no
  bound applies when the capacity was left out.
\<close>

definition baseAdd :: "ref \<Rightarrow> recorder \<Rightarrow> recorder" where
  "baseAdd r rc =
     (let xs = spans rc @ [r]
      in rc\<lparr>spans := (case maxlen rc of None \<Rightarrow> xs | Some n \<Rightarrow> drop (length xs - n) xs)\<rparr>)"

section \<open>IdleTransaction: activities\<close>

text \<open>
  \<open>_pushActivity\<close> and \<open>_popActivity\<close> start by reading \<open>this._activities\<close>. The
  recorder has no such field, so with the recorder as receiver the read yields
  \<open>undefined\<close> and indexing it throws.

  The activity object starts as an object literal, so it inherits from
  \<open>Object.prototype\<close>, and the key \<open>__proto__\<close> is special. Unless the object has an own
  property of that name, assigning \<open>true\<close> to it runs the inherited setter, which ignores
  a value that is not an object: no own property appears. Reading an absent key finds
  nothing own; where an inherited value is found instead (the prototype object for
  \<open>__proto__\<close>, a method for a name such as \<open>toString\<close>) it is truthy, and the
  \<open>delete\<close> that follows removes nothing, so \<open>_popActivity\<close> leaves the set as it
  is, as it does for any key that is not an own property.
\<close>

definition pushActivity :: "receiver \<Rightarrow> string \<Rightarrow> state \<Rightarrow> outcome" where
  "pushActivity this sid s =
     (case this of
        ThisRecorder \<Rightarrow> (Some TypeError, s)
      | ThisTransaction \<Rightarrow>
          (if sid = ''__proto__'' \<and> map_of (activities s) sid = None then (None, s)
           else (None, s\<lparr>activities := AList.update sid True (activities s)\<rparr>)))"

definition popActivity :: "receiver \<Rightarrow> string \<Rightarrow> state \<Rightarrow> outcome" where
  "popActivity this sid s =
     (case this of
        ThisRecorder \<Rightarrow> (Some TypeError, s)
      | ThisTransaction \<Rightarrow>
          (let s1 = (if map_of (activities s) sid = Some True
                     then s\<lparr>activities := AList.delete sid (activities s)\<rparr> else s);
               count = length (Object_keys (activities s1))
           in if count = 0
              then (let timeout = idleTimeout s1;
                        endT = now s1 + timeout / 1000
                    in (None, snd (setTimeout (CbFinishIdle endT) timeout s1)))
              else (None, s1)))"

definition callActivityFn :: "activity_fn \<Rightarrow> receiver \<Rightarrow> string \<Rightarrow> state \<Rightarrow> outcome" where
  "callActivityFn f this sid s =
     (case f of FnPushActivity \<Rightarrow> pushActivity this sid s
              | FnPopActivity \<Rightarrow> popActivity this sid s)"

section \<open>Calling a span's finish property\<close>

text \<open>
  \<open>span.finish(endTimestamp)\<close> looks the property up at the time of the call. The
  arrow function stored by \<open>add\<close> starts with that very lookup on the same span. The
  first argument is the number of frames left on the call stack; a call with none left
  throws.
\<close>

fun callFinish :: "nat \<Rightarrow> ref \<Rightarrow> rat option \<Rightarrow> state \<Rightarrow> outcome" where
  "callFinish 0 r e s = (Some RangeError, s)"
| "callFinish (Suc d) r e s =
     (case finish (heap s r) of
        ProtoFinish \<Rightarrow> (None, protoFinish r e s)
      | PatchedFinish pop \<Rightarrow>
          (case callFinish d r e s of
             (Some err, s1) \<Rightarrow> (Some err, s1)
           | (None, s1) \<Rightarrow>
               (case pop of
                  None \<Rightarrow> (None, s1)
                | Some f \<Rightarrow> callActivityFn f ThisRecorder (spanId (heap s1 r)) s1)))"

section \<open>IdleTransactionSpanRecorder\<close>

definition newIdleTransactionSpanRecorder ::
  "nat option \<Rightarrow> activity_fn option \<Rightarrow> activity_fn option \<Rightarrow> recorder" where
  "newIdleTransactionSpanRecorder mx pushActivityArg popActivityArg =
     \<lparr>spans = [], maxlen = mx, idleAware = True,
      recPushActivity = pushActivityArg, recPopActivity = popActivityArg\<rparr>"

text \<open>\<open>add\<close> on the transaction's recorder; calling it with no recorder is a method
  call on \<open>undefined\<close>.\<close>

definition add :: "ref \<Rightarrow> state \<Rightarrow> outcome" where
  "add r s =
     (case spanRecorder s of
        None \<Rightarrow> (Some TypeError, s)
      | Some rc \<Rightarrow>
          if idleAware rc then
            (let s1 = updSpan r (\<lambda>sp. sp\<lparr>finish := PatchedFinish (recPopActivity rc)\<rparr>) s;
                 s2 = s1\<lparr>spanRecorder := Some (baseAdd r rc)\<rparr>
             in case recPushActivity rc of
                  None \<Rightarrow> (None, s2)
                | Some f \<Rightarrow> callActivityFn f ThisRecorder (spanId (heap s2 r)) s2)
          else (None, s\<lparr>spanRecorder := Some (baseAdd r rc)\<rparr>))"

definition initSpanRecorder :: "nat option \<Rightarrow> state \<Rightarrow> outcome" where
  "initSpanRecorder mx s =
     (let s1 = (if spanRecorder s = None
                then s\<lparr>spanRecorder :=
                         Some (newIdleTransactionSpanRecorder mx (Some FnPopActivity) (Some FnPushActivity))\<rparr>
                else s)
      in add (self s1) s1)"

section \<open>IdleTransaction: finishing\<close>

text \<open>The callback of \<open>spans.filter\<close>, run over the recorder's spans from left to
  right: it returns the references kept and the state after its mutations.\<close>

fun reconcile :: "rat \<Rightarrow> ref list \<Rightarrow> state \<Rightarrow> ref list \<times> state" where
  "reconcile e [] s = ([], s)"
| "reconcile e (r # rs) s =
     (if spanId (heap s r) = spanId (heap s (self s))
      then (case reconcile e rs s of (ks, s') \<Rightarrow> (r # ks, s'))
      else
        (let s1 = (if falsy (endTimestamp (heap s r))
                   then logMsg (LogCancelling (spanId (heap s r)))
                          (setStatus r Cancelled (updSpan r (\<lambda>sp. sp\<lparr>endTimestamp := Some e\<rparr>) s))
                   else s);
             keepSpan = (startTimestamp (heap s1 r) < e);
             s2 = (if keepSpan then s1 else logMsg (LogDiscarding (spanId (heap s1 r))) s1)
         in case reconcile e rs s2 of (ks, s') \<Rightarrow> (if keepSpan then r # ks else ks, s')))"

definition finishIdleTransaction :: "nat \<Rightarrow> rat \<Rightarrow> state \<Rightarrow> outcome" where
  "finishIdleTransaction d e s =
     (case spanRecorder s of
        Some rc \<Rightarrow>
          (case reconcile e (spans rc) s of
             (ks, s1) \<Rightarrow>
               (let s2 = s1\<lparr>spanRecorder := Some (rc\<lparr>spans := ks\<rparr>)\<rparr>;
                    s3 = logMsg LogFlushing s2
                in callFinish d (self s3) None s3))
      | None \<Rightarrow> (None, logMsg LogNoActive s))"

section \<open>IdleTransaction: heartbeat\<close>

definition pingHeartbeat :: "state \<Rightarrow> state" where
  "pingHeartbeat s =
     (case setTimeout CbBeat 5000 s of (tid, s1) \<Rightarrow> s1\<lparr>heartbeatTimer := tid\<rparr>)"

text \<open>\<open>keys.reduce\<close> without an initial value starts from the first key; it is only
  reached with at least one key.\<close>

definition beat :: "nat \<Rightarrow> state \<Rightarrow> outcome" where
  "beat d s =
     (let s0 = clearTimeout (heartbeatTimer s) s
      in case Object_keys (activities s0) of
           [] \<Rightarrow> (None, pingHeartbeat s0)
         | k # ks \<Rightarrow>
             (let heartbeatString = foldl (\<lambda>prev current. prev @ current) k ks;
                  s1 = (if Some heartbeatString = prevHeartbeatString s0
                        then s0\<lparr>heartbeatCounter := heartbeatCounter s0 + 1\<rparr>
                        else s0\<lparr>heartbeatCounter := 0\<rparr>);
                  res = (if 3 \<le> heartbeatCounter s1
                         then (let s2 = logMsg LogHeartbeatSafeguard s1;
                                   s3 = setStatus (self s2) DeadlineExceeded s2;
                                   s4 = setTag (self s3) ''heartbeat'' ''failed'' s3
                               in finishIdleTransaction d (now s4) s4)
                         else (None, s1))
              in case res of
                   (Some err, s5) \<Rightarrow> (Some err, s5)
                 | (None, s5) \<Rightarrow>
                     (None, pingHeartbeat (s5\<lparr>prevHeartbeatString := Some heartbeatString\<rparr>))))"

text \<open>The host running a pending timer: the timer leaves the pending list, then its
  callback runs. Firing an identifier that is not pending does nothing.\<close>

definition runCallback :: "nat \<Rightarrow> callback \<Rightarrow> state \<Rightarrow> outcome" where
  "runCallback d cb s =
     (case cb of CbBeat \<Rightarrow> beat d s | CbFinishIdle e \<Rightarrow> finishIdleTransaction d e s)"

definition fireTimer :: "nat \<Rightarrow> nat \<Rightarrow> state \<Rightarrow> outcome" where
  "fireTimer d tid s =
     (case find (\<lambda>t. timerId t = tid) (timers s) of
        None \<Rightarrow> (None, s)
      | Some t \<Rightarrow> runCallback d (timerCallback t) (clearTimeout tid s))"

text \<open>The constructor: the span part comes from the transaction context, the fields
  take their initialisers, and the heartbeat is started.\<close>

definition blankSpan :: span where
  "blankSpan = \<lparr>spanId = [], startTimestamp = 0, endTimestamp = None, status = None,
                tags = [], finish = ProtoFinish\<rparr>"

definition newSpan :: "string \<Rightarrow> rat \<Rightarrow> span" where
  "newSpan sid start = blankSpan\<lparr>spanId := sid, startTimestamp := start\<rparr>"

definition newIdleTransaction :: "string \<Rightarrow> rat \<Rightarrow> rat \<Rightarrow> rat \<Rightarrow> state" where
  "newIdleTransaction sid start timeout clock =
     pingHeartbeat
       \<lparr>heap = (\<lambda>_. blankSpan)(0 := newSpan sid start), self = 0, idleTimeout = timeout,
        activities = [], heartbeatTimer = 0, prevHeartbeatString = None,
        heartbeatCounter = 0, spanRecorder = None, now = clock, timers = [],
        nextTimerId = 1, logs = [], finishCalls = []\<rparr>"

section \<open>Auxiliary definitions for the statements\<close>

text \<open>The effect of one run of the filter callback on a span object, for a transaction
  whose identifier is \<open>selfId\<close>.\<close>

definition cancelPending :: "rat \<Rightarrow> string \<Rightarrow> span \<Rightarrow> span" where
  "cancelPending e selfId sp =
     (if spanId sp = selfId then sp
      else if falsy (endTimestamp sp) then sp\<lparr>endTimestamp := Some e, status := Some Cancelled\<rparr>
      else sp)"

text \<open>The state in which \<open>_finishIdleTransaction\<close> reaches its call of
  \<open>this.finish()\<close>.\<close>

definition afterReconcile :: "rat \<Rightarrow> recorder \<Rightarrow> state \<Rightarrow> state" where
  "afterReconcile e rc s =
     logMsg LogFlushing
       ((snd (reconcile e (spans rc) s))
          \<lparr>spanRecorder := Some (rc\<lparr>spans := fst (reconcile e (spans rc) s)\<rparr>)\<rparr>)"

text \<open>
  Example states. \<open>demoState\<close> is a transaction created at clock reading 3 with a plain
  recorder holding the transaction itself, an open child, an open child that starts at
  20, and a child finished at 2.5. \<open>stalledState\<close> adds one activity that the heartbeat
  has already seen unchanged twice, and a pending idle timer. \<open>idleState\<close> carries an
  idle-aware recorder built without callbacks.
\<close>

definition plainRecorder :: "ref list \<Rightarrow> recorder" where
  "plainRecorder rs = \<lparr>spans = rs, maxlen = None, idleAware = False,
                       recPushActivity = None, recPopActivity = None\<rparr>"

definition demoState :: state where
  "demoState = (newIdleTransaction ''tx'' 0 500 3)
     \<lparr>heap := (\<lambda>_. blankSpan)
         (0 := newSpan ''tx'' 0, 1 := newSpan ''a1'' 1, 2 := newSpan ''b2'' 20,
          3 := (newSpan ''c3'' 2)\<lparr>endTimestamp := Some (5 / 2), status := Some Ok\<rparr>),
      spanRecorder := Some (plainRecorder [0, 1, 2, 3])\<rparr>"

definition stalledState :: state where
  "stalledState = demoState
     \<lparr>activities := [(''a1'', True)], prevHeartbeatString := Some ''a1'',
      heartbeatCounter := 2,
      timers := timers demoState @ [\<lparr>timerId = 2, delay = 500, timerCallback = CbFinishIdle (7 / 2)\<rparr>],
      nextTimerId := 3\<rparr>"

definition idleState :: state where
  "idleState = demoState
     \<lparr>spanRecorder := Some (newIdleTransactionSpanRecorder None None None)\<rparr>"

text \<open>The signature the heartbeat computes from an activity set: none for an empty set,
  else the concatenation of its keys in the order of \<open>Object.keys\<close>.\<close>

definition heartbeatSignature :: "(string \<times> bool) list \<Rightarrow> string option" where
  "heartbeatSignature a =
     (case Object_keys a of
        [] \<Rightarrow> None
      | k # ks \<Rightarrow> Some (foldl (\<lambda>prev current. prev @ current) k ks))"

text \<open>The state in which a stalled heartbeat tick reaches its call of
  \<open>_finishIdleTransaction\<close>: old timer cleared, counter incremented, the safeguard
  logged, status and tag set.\<close>

definition safeguardState :: "state \<Rightarrow> state" where
  "safeguardState s =
     (let s1 = (clearTimeout (heartbeatTimer s) s)\<lparr>heartbeatCounter := heartbeatCounter s + 1\<rparr>;
          s2 = logMsg LogHeartbeatSafeguard s1;
          s3 = setStatus (self s2) DeadlineExceeded s2
      in setTag (self s3) ''heartbeat'' ''failed'' s3)"

text \<open>Drivers for the statements: a sequence of finalize calls, and a sequence of
  heartbeat ticks, the activity set being what the callers made of it before each
  tick.\<close>

fun finalizeAll :: "nat \<Rightarrow> rat list \<Rightarrow> state \<Rightarrow> state" where
  "finalizeAll d [] s = s"
| "finalizeAll d (e # es) s = finalizeAll d es (snd (finishIdleTransaction d e s))"

fun runBeats :: "nat \<Rightarrow> (string \<times> bool) list list \<Rightarrow> state \<Rightarrow> outcome" where
  "runBeats d [] s = (None, s)"
| "runBeats d (a # as) s =
     (case beat d (s\<lparr>activities := a\<rparr>) of
        (Some err, s') \<Rightarrow> (Some err, s')
      | (None, s') \<Rightarrow> runBeats d as s')"

text \<open>
  \<open>changesFromStored prev as\<close>: over the ticks \<open>as\<close>, every non-empty activity set has
  a signature other than the one the heartbeat has stored when it ticks, \<open>prev\<close> being
  the signature stored at the start. A tick on an empty set stores nothing, so the
  comparison is with the last non-empty set before it: a set that alternates with the
  empty set, and is otherwise the same, does not satisfy this.
\<close>

fun changesFromStored :: "string option \<Rightarrow> (string \<times> bool) list list \<Rightarrow> bool" where
  "changesFromStored prev [] = True"
| "changesFromStored prev (a # as) =
     (case heartbeatSignature a of
        None \<Rightarrow> changesFromStored prev as
      | Some g \<Rightarrow> Some g \<noteq> prev \<and> changesFromStored (Some g) as)"

text \<open>\<open>seenOnce\<close>: the example transaction after a first heartbeat tick has stored
  the signature of the activity set \<open>a1\<close>.\<close>

definition seenOnce :: state where
  "seenOnce = snd (beat 5 (demoState\<lparr>activities := [(''a1'', True)]\<rparr>))"

section \<open>Basic facts\<close>

lemma Object_keys_Nil_iff: "Object_keys obj = [] \<longleftrightarrow> obj = []"
proof (cases obj)
  case Nil
  then show ?thesis by (simp add: Object_keys_def)
next
  case (Cons p ps)
  have "set (Object_keys obj) = fst ` set obj"
    by (auto simp: Object_keys_def Let_def)
  with Cons show ?thesis by auto
qed

lemma callFinish_cases:
  "callFinish d r e s =
     (if d = 0 then (Some RangeError, s)
      else (case finish (heap s r) of
              ProtoFinish \<Rightarrow> (None, protoFinish r e s)
            | PatchedFinish pop \<Rightarrow> (Some RangeError, s)))"
proof (induction d)
  case 0
  show ?case by simp
next
  case (Suc d)
  show ?case
  proof (cases "finish (heap s r)")
    case ProtoFinish
    then show ?thesis by simp
  next
    case (PatchedFinish pop)
    with Suc show ?thesis by (cases d) (simp_all split: finish_fn.splits)
  qed
qed

lemma reconcile_shape: "\<exists>H L. snd (reconcile e rs s) = s\<lparr>heap := H, logs := L\<rparr>"
proof (induction rs arbitrary: s)
  case Nil
  have "s = s\<lparr>heap := heap s, logs := logs s\<rparr>" by simp
  then show ?case by (metis reconcile.simps(1) snd_conv)
next
  case (Cons r rs)
  show ?case
  proof (cases "spanId (heap s r) = spanId (heap s (self s))")
    case True
    then have "snd (reconcile e (r # rs) s) = snd (reconcile e rs s)"
      by (simp split: prod.splits)
    then show ?thesis using Cons [of s] by simp
  next
    case False
    define s1 where "s1 = (if falsy (endTimestamp (heap s r))
                   then logMsg (LogCancelling (spanId (heap s r)))
                          (setStatus r Cancelled (updSpan r (\<lambda>sp. sp\<lparr>endTimestamp := Some e\<rparr>) s))
                   else s)"
    define s2 where "s2 = (if startTimestamp (heap s1 r) < e then s1 else logMsg (LogDiscarding (spanId (heap s1 r))) s1)"
    have "\<exists>H L. s2 = s\<lparr>heap := H, logs := L\<rparr>"
    proof -
      have "s2 = s\<lparr>heap := heap s2, logs := logs s2\<rparr>"
        by (simp add: s2_def s1_def logMsg_def setStatus_def updSpan_def)
      then show ?thesis by blast
    qed
    then obtain H L where s2: "s2 = s\<lparr>heap := H, logs := L\<rparr>" by blast
    from Cons [of s2] obtain H' L' where "snd (reconcile e rs s2) = s2\<lparr>heap := H', logs := L'\<rparr>" by blast
    then have "snd (reconcile e rs s2) = s\<lparr>heap := H', logs := L'\<rparr>" by (simp add: s2)
    moreover have "snd (reconcile e (r # rs) s) = snd (reconcile e rs s2)"
      using False by (simp add: s2_def s1_def Let_def split: prod.splits)
    ultimately show ?thesis by metis
  qed
qed

lemma reconcile_heap:
  "heap (snd (reconcile e rs s)) x =
     (if x \<in> set rs then cancelPending e (spanId (heap s (self s))) (heap s x) else heap s x)"
proof (induction rs arbitrary: s)
  case Nil
  show ?case by simp
next
  case (Cons r rs)
  show ?case
  proof (cases "spanId (heap s r) = spanId (heap s (self s))")
    case True
    then show ?thesis using Cons [of s] by (auto simp: cancelPending_def split: prod.splits)
  next
    case False
    define s1 where "s1 = (if falsy (endTimestamp (heap s r))
                   then logMsg (LogCancelling (spanId (heap s r)))
                          (setStatus r Cancelled (updSpan r (\<lambda>sp. sp\<lparr>endTimestamp := Some e\<rparr>) s))
                   else s)"
    define s2 where "s2 = (if startTimestamp (heap s1 r) < e then s1 else logMsg (LogDiscarding (spanId (heap s1 r))) s1)"
    have step: "snd (reconcile e (r # rs) s) = snd (reconcile e rs s2)"
      using False by (simp add: s2_def s1_def Let_def split: prod.splits)
    have h2: "heap s2 = (heap s)(r := cancelPending e (spanId (heap s (self s))) (heap s r))"
      using False
      by (auto simp: s2_def s1_def logMsg_def setStatus_def updSpan_def cancelPending_def fun_eq_iff)
    have self2: "self s2 = self s"
      by (simp add: s2_def s1_def logMsg_def setStatus_def updSpan_def)
    have id2: "spanId (heap s2 (self s2)) = spanId (heap s (self s))"
      by (simp add: h2 self2 cancelPending_def)
    have idem: "cancelPending e i (cancelPending e i sp) = cancelPending e i sp" for i sp
      by (simp add: cancelPending_def falsy_def)
    show ?thesis
      unfolding step Cons [of s2] id2
      by (simp add: h2 idem)
  qed
qed

lemma reconcile_kept:
  "fst (reconcile e rs s) =
     filter (\<lambda>r. spanId (heap s r) = spanId (heap s (self s)) \<or> startTimestamp (heap s r) < e) rs"
proof (induction rs arbitrary: s)
  case Nil
  show ?case by simp
next
  case (Cons r rs)
  show ?case
  proof (cases "spanId (heap s r) = spanId (heap s (self s))")
    case True
    then show ?thesis using Cons [of s] by (auto split: prod.splits)
  next
    case False
    define s1 where "s1 = (if falsy (endTimestamp (heap s r))
                   then logMsg (LogCancelling (spanId (heap s r)))
                          (setStatus r Cancelled (updSpan r (\<lambda>sp. sp\<lparr>endTimestamp := Some e\<rparr>) s))
                   else s)"
    define s2 where "s2 = (if startTimestamp (heap s1 r) < e then s1 else logMsg (LogDiscarding (spanId (heap s1 r))) s1)"
    have st: "startTimestamp (heap s1 r) = startTimestamp (heap s r)"
      by (simp add: s1_def logMsg_def setStatus_def updSpan_def)
    have step: "fst (reconcile e (r # rs) s) =
        (if startTimestamp (heap s r) < e then r # fst (reconcile e rs s2) else fst (reconcile e rs s2))"
      using False unfolding s2_def s1_def 
      by (simp add: Let_def logMsg_def setStatus_def updSpan_def split: prod.splits)
    have ids: "spanId (heap s2 x) = spanId (heap s x)" for x
      by (simp add: s2_def s1_def logMsg_def setStatus_def updSpan_def)
    have sts: "startTimestamp (heap s2 x) = startTimestamp (heap s x)" for x
      by (simp add: s2_def s1_def logMsg_def setStatus_def updSpan_def)
    have self2: "self s2 = self s"
      by (simp add: s2_def s1_def logMsg_def setStatus_def updSpan_def)
    show ?thesis
      unfolding step Cons [of s2] using False by (simp add: ids sts self2)
  qed
qed

lemmas demo_defs = demoState_def stalledState_def plainRecorder_def newIdleTransaction_def
  pingHeartbeat_def setTimeout_def newSpan_def blankSpan_def

lemma finishIdle_None:
  "spanRecorder s = None \<Longrightarrow> finishIdleTransaction d e s = (None, logMsg LogNoActive s)"
  by (simp add: finishIdleTransaction_def)

lemma reconcile_self: "self (snd (reconcile e rs s)) = self s"
proof -
  obtain H L where "snd (reconcile e rs s) = s\<lparr>heap := H, logs := L\<rparr>"
    using reconcile_shape by blast
  then show ?thesis by simp
qed

lemma finishIdle_Some:
  "spanRecorder s = Some rc \<Longrightarrow>
   finishIdleTransaction d e s = callFinish d (self s) None (afterReconcile e rc s)"
proof -
  assume rc: "spanRecorder s = Some rc"
  obtain ks s1 where r: "reconcile e (spans rc) s = (ks, s1)" by (cases "reconcile e (spans rc) s")
  have "self s1 = self s" using reconcile_self [of e "spans rc" s] by (simp add: r)
  then show ?thesis
    by (simp add: finishIdleTransaction_def afterReconcile_def Let_def logMsg_def rc r)
qed

lemma afterReconcile_shape:
  "\<exists>H L. afterReconcile e rc s =
     s\<lparr>heap := H, spanRecorder := Some (rc\<lparr>spans := fst (reconcile e (spans rc) s)\<rparr>), logs := L\<rparr>"
proof -
  obtain H L where "snd (reconcile e (spans rc) s) = s\<lparr>heap := H, logs := L\<rparr>"
    using reconcile_shape by blast
  then have "afterReconcile e rc s =
     s\<lparr>heap := H, spanRecorder := Some (rc\<lparr>spans := fst (reconcile e (spans rc) s)\<rparr>), logs := L @ [LogFlushing]\<rparr>"
    by (simp add: afterReconcile_def logMsg_def)
  then show ?thesis by blast
qed

lemma afterReconcile_heap:
  "heap (afterReconcile e rc s) = heap (snd (reconcile e (spans rc) s))"
  by (simp add: afterReconcile_def logMsg_def)

lemma finishIdle_shape:
  "\<exists>H R L F. snd (finishIdleTransaction d e s) =
      s\<lparr>heap := H, spanRecorder := R, logs := L, finishCalls := F\<rparr>"
proof (cases "spanRecorder s")
  case None
  have "logMsg LogNoActive s =
      s\<lparr>heap := heap s, spanRecorder := spanRecorder s, logs := logs s @ [LogNoActive],
        finishCalls := finishCalls s\<rparr>"
    by (simp add: logMsg_def)
  then show ?thesis using None by (metis finishIdle_None snd_conv)
next
  case (Some rc)
  obtain H L where a: "afterReconcile e rc s =
     s\<lparr>heap := H, spanRecorder := Some (rc\<lparr>spans := fst (reconcile e (spans rc) s)\<rparr>), logs := L\<rparr>"
    using afterReconcile_shape by blast
  let ?a = "afterReconcile e rc s"
  have "snd (callFinish d (self s) None ?a) = ?a \<or>
        snd (callFinish d (self s) None ?a) = protoFinish (self s) None ?a"
    by (simp add: callFinish_cases split: finish_fn.splits)
  then show ?thesis
  proof
    assume "snd (callFinish d (self s) None ?a) = ?a"
    then have "snd (finishIdleTransaction d e s) =
       s\<lparr>heap := H, spanRecorder := Some (rc\<lparr>spans := fst (reconcile e (spans rc) s)\<rparr>), logs := L,
         finishCalls := finishCalls s\<rparr>"
      using a by (simp add: finishIdle_Some [OF Some])
    then show ?thesis by blast
  next
    assume "snd (callFinish d (self s) None ?a) = protoFinish (self s) None ?a"
    then have "snd (finishIdleTransaction d e s) =
       s\<lparr>heap := heap (protoFinish (self s) None ?a),
         spanRecorder := Some (rc\<lparr>spans := fst (reconcile e (spans rc) s)\<rparr>), logs := L,
         finishCalls := finishCalls s @ [None]\<rparr>"
      using a by (simp add: finishIdle_Some [OF Some] protoFinish_def updSpan_def Let_def)
    then show ?thesis by blast
  qed
qed

lemma finishIdle_timers: "timers (snd (finishIdleTransaction d e s)) = timers s"
proof -
  obtain H R L F where "snd (finishIdleTransaction d e s) =
      s\<lparr>heap := H, spanRecorder := R, logs := L, finishCalls := F\<rparr>"
    using finishIdle_shape by blast
  then show ?thesis by simp
qed

lemmas field_defs = logMsg_def setStatus_def setTag_def updSpan_def protoFinish_def
  clearTimeout_def falsy_def

subsection \<open>Finalize with a span recorder\<close>

lemma cancelPending_self [simp]: "cancelPending e (spanId sp) sp = sp"
  by (simp add: cancelPending_def)

lemma afterReconcile_self: "self (afterReconcile e rc s) = self s"
  by (simp add: afterReconcile_def logMsg_def reconcile_self)

lemma afterReconcile_heap_at:
  "heap (afterReconcile e rc s) x =
     (if x \<in> set (spans rc) then cancelPending e (spanId (heap s (self s))) (heap s x)
      else heap s x)"
  by (simp add: afterReconcile_heap reconcile_heap)

lemma afterReconcile_heap_self: "heap (afterReconcile e rc s) (self s) = heap s (self s)"
  by (simp add: afterReconcile_heap_at)

lemma afterReconcile_recorder:
  "spanRecorder (afterReconcile e rc s) =
     Some (rc\<lparr>spans := filter (\<lambda>r. spanId (heap s r) = spanId (heap s (self s)) \<or>
                                   startTimestamp (heap s r) < e) (spans rc)\<rparr>)"
  by (simp add: afterReconcile_def logMsg_def reconcile_kept)

lemma afterReconcile_finishCalls: "finishCalls (afterReconcile e rc s) = finishCalls s"
proof -
  obtain H L where "afterReconcile e rc s =
     s\<lparr>heap := H, spanRecorder := Some (rc\<lparr>spans := fst (reconcile e (spans rc) s)\<rparr>), logs := L\<rparr>"
    using afterReconcile_shape by blast
  then show ?thesis by simp
qed

lemma finishIdle_recorder:
  assumes "spanRecorder s = Some rc"
  shows "spanRecorder (snd (finishIdleTransaction d e s)) =
     Some (rc\<lparr>spans := filter (\<lambda>r. spanId (heap s r) = spanId (heap s (self s)) \<or>
                                   startTimestamp (heap s r) < e) (spans rc)\<rparr>)"
  by (simp add: finishIdle_Some [OF assms] callFinish_cases afterReconcile_recorder
      protoFinish_def updSpan_def Let_def afterReconcile_self split: finish_fn.splits)

lemma finishIdle_heap_other:
  assumes "spanRecorder s = Some rc" and "x \<noteq> self s"
  shows "heap (snd (finishIdleTransaction d e s)) x =
     (if x \<in> set (spans rc) then cancelPending e (spanId (heap s (self s))) (heap s x)
      else heap s x)"
  using assms(2)
  by (simp add: finishIdle_Some [OF assms(1)] callFinish_cases afterReconcile_heap_at
      protoFinish_def updSpan_def Let_def afterReconcile_self split: finish_fn.splits)

lemma finishIdle_self: "self (snd (finishIdleTransaction d e s)) = self s"
proof -
  obtain H R L F where "snd (finishIdleTransaction d e s) =
      s\<lparr>heap := H, spanRecorder := R, logs := L, finishCalls := F\<rparr>"
    using finishIdle_shape by blast
  then show ?thesis by simp
qed

lemma finishIdle_self_fields:
  "status (heap (snd (finishIdleTransaction d e s)) (self s)) = status (heap s (self s)) \<and>
   tags (heap (snd (finishIdleTransaction d e s)) (self s)) = tags (heap s (self s)) \<and>
   finish (heap (snd (finishIdleTransaction d e s)) (self s)) = finish (heap s (self s)) \<and>
   spanId (heap (snd (finishIdleTransaction d e s)) (self s)) = spanId (heap s (self s))"
proof (cases "spanRecorder s")
  case None
  show ?thesis unfolding finishIdle_None [OF None] by (simp add: logMsg_def)
next
  case (Some rc)
  show ?thesis unfolding finishIdle_Some [OF Some]
    by (simp add: callFinish_cases afterReconcile_heap_self protoFinish_def updSpan_def Let_def
        afterReconcile_self split: finish_fn.splits)
qed

lemma finishIdle_proto:
  assumes "spanRecorder s = Some rc" and "finish (heap s (self s)) = ProtoFinish"
  shows "fst (finishIdleTransaction (Suc d) e s) = None"
    and "finishCalls (snd (finishIdleTransaction (Suc d) e s)) = finishCalls s @ [None]"
    and "finish (heap (snd (finishIdleTransaction (Suc d) e s)) (self s)) = ProtoFinish"
    and "endTimestamp (heap (snd (finishIdleTransaction (Suc d) e s)) (self s)) = Some (now s)"
proof -
  let ?a = "afterReconcile e rc s"
  have f: "finish (heap ?a (self s)) = ProtoFinish"
    by (simp add: afterReconcile_heap_self assms(2))
  have n: "now ?a = now s"
  proof -
    obtain H L where "?a =
       s\<lparr>heap := H, spanRecorder := Some (rc\<lparr>spans := fst (reconcile e (spans rc) s)\<rparr>), logs := L\<rparr>"
      using afterReconcile_shape by blast
    then show ?thesis by simp
  qed
  have c: "finishIdleTransaction (Suc d) e s = (None, protoFinish (self s) None ?a)"
    by (simp add: finishIdle_Some [OF assms(1)] f)
  show "fst (finishIdleTransaction (Suc d) e s) = None" by (simp add: c)
  show "finishCalls (snd (finishIdleTransaction (Suc d) e s)) = finishCalls s @ [None]"
    by (simp add: c protoFinish_def Let_def updSpan_def afterReconcile_self afterReconcile_finishCalls)
  show "finish (heap (snd (finishIdleTransaction (Suc d) e s)) (self s)) = ProtoFinish"
    by (simp add: c protoFinish_def Let_def updSpan_def afterReconcile_self f)
  show "endTimestamp (heap (snd (finishIdleTransaction (Suc d) e s)) (self s)) = Some (now s)"
    by (simp add: c protoFinish_def Let_def updSpan_def afterReconcile_self n)
qed

subsection \<open>The three cases of a heartbeat tick\<close>

lemma finishIdle_frame:
  "timers (snd (finishIdleTransaction d e s)) = timers s \<and>
   nextTimerId (snd (finishIdleTransaction d e s)) = nextTimerId s \<and>
   heartbeatTimer (snd (finishIdleTransaction d e s)) = heartbeatTimer s \<and>
   heartbeatCounter (snd (finishIdleTransaction d e s)) = heartbeatCounter s \<and>
   prevHeartbeatString (snd (finishIdleTransaction d e s)) = prevHeartbeatString s \<and>
   activities (snd (finishIdleTransaction d e s)) = activities s \<and>
   self (snd (finishIdleTransaction d e s)) = self s"
proof -
  obtain H R L F where "snd (finishIdleTransaction d e s) =
      s\<lparr>heap := H, spanRecorder := R, logs := L, finishCalls := F\<rparr>"
    using finishIdle_shape by blast
  then show ?thesis by simp
qed

lemma beat_empty:
  assumes "heartbeatSignature (activities s) = None"
  shows "beat d s = (None, pingHeartbeat (clearTimeout (heartbeatTimer s) s))"
  using assms
  by (simp add: beat_def heartbeatSignature_def clearTimeout_def Let_def split: list.splits)

lemma beat_quiet:
  assumes "heartbeatSignature (activities s) = Some g"
    and "Some g \<noteq> prevHeartbeatString s \<or> heartbeatCounter s < 2"
  shows "beat d s =
     (None, pingHeartbeat ((clearTimeout (heartbeatTimer s) s)
        \<lparr>heartbeatCounter := (if Some g = prevHeartbeatString s then heartbeatCounter s + 1 else 0),
         prevHeartbeatString := Some g\<rparr>))"
  using assms
  by (auto simp: beat_def heartbeatSignature_def clearTimeout_def Let_def split: list.splits)

lemma beat_stalled:
  assumes "heartbeatSignature (activities s) = Some g"
    and "prevHeartbeatString s = Some g" and "2 \<le> heartbeatCounter s"
  shows "beat d s =
     (case finishIdleTransaction d (now s) (safeguardState s) of
        (Some err, s5) \<Rightarrow> (Some err, s5)
      | (None, s5) \<Rightarrow> (None, pingHeartbeat (s5\<lparr>prevHeartbeatString := Some g\<rparr>)))"
  using assms
  by (auto simp: beat_def heartbeatSignature_def safeguardState_def clearTimeout_def Let_def
      logMsg_def setStatus_def setTag_def updSpan_def split: list.splits)

lemma safeguardState_fields:
  "self (safeguardState s) = self s"
  "status (heap (safeguardState s) (self s)) = Some DeadlineExceeded"
  "map_of (tags (heap (safeguardState s) (self s))) ''heartbeat'' = Some ''failed''"
  "timers (safeguardState s) = filter (\<lambda>t. timerId t \<noteq> heartbeatTimer s) (timers s)"
  "nextTimerId (safeguardState s) = nextTimerId s"
  "heartbeatCounter (safeguardState s) = heartbeatCounter s + 1"
  "finishCalls (safeguardState s) = finishCalls s"
  "spanRecorder (safeguardState s) = spanRecorder s"
  "finish (heap (safeguardState s) (self s)) = finish (heap s (self s))"
  by (simp_all add: safeguardState_def Let_def clearTimeout_def logMsg_def setStatus_def
      setTag_def updSpan_def update_conv')

lemma beat_stalled_snd:
  assumes "heartbeatSignature (activities s) = Some g"
    and "prevHeartbeatString s = Some g" and "2 \<le> heartbeatCounter s"
  shows "heap (snd (beat d s)) = heap (snd (finishIdleTransaction d (now s) (safeguardState s)))"
    and "finishCalls (snd (beat d s)) = finishCalls (snd (finishIdleTransaction d (now s) (safeguardState s)))"
    and "fst (beat d s) = fst (finishIdleTransaction d (now s) (safeguardState s))"
    and "heartbeatCounter (snd (beat d s)) = heartbeatCounter s + 1"
  unfolding beat_stalled [OF assms]
  using finishIdle_frame [of d "now s" "safeguardState s"]
  by (auto simp: pingHeartbeat_def setTimeout_def safeguardState_fields split: prod.splits option.splits)

lemma stalled_tick:
  assumes "heartbeatSignature (activities s) = Some g"
    and "prevHeartbeatString s = Some g" and "2 \<le> heartbeatCounter s"
  shows "status (heap (snd (beat d s)) (self s)) = Some DeadlineExceeded"
    and "map_of (tags (heap (snd (beat d s)) (self s))) ''heartbeat'' = Some ''failed''"
  using finishIdle_self_fields [of d "now s" "safeguardState s"]
  by (simp_all add: beat_stalled_snd(1) [OF assms] safeguardState_fields)

lemma beat_ok_bookkeeping:
  assumes "heartbeatSignature (activities s) = Some g" and "fst (beat d s) = None"
  shows "prevHeartbeatString (snd (beat d s)) = Some g"
    and "heartbeatCounter (snd (beat d s)) =
           (if Some g = prevHeartbeatString s then heartbeatCounter s + 1 else 0)"
proof -
  show "prevHeartbeatString (snd (beat d s)) = Some g"
  proof (cases "prevHeartbeatString s = Some g \<and> 2 \<le> heartbeatCounter s")
    case True
    then have p: "prevHeartbeatString s = Some g" and c: "2 \<le> heartbeatCounter s" by simp_all
    show ?thesis
      using assms(2) unfolding beat_stalled [OF assms(1) p c]
      by (auto simp: pingHeartbeat_def setTimeout_def split: prod.splits option.splits)
  next
    case False
    then have "Some g \<noteq> prevHeartbeatString s \<or> heartbeatCounter s < 2" by auto
    then show ?thesis
      by (simp add: beat_quiet [OF assms(1)] pingHeartbeat_def setTimeout_def clearTimeout_def)
  qed
  show "heartbeatCounter (snd (beat d s)) =
           (if Some g = prevHeartbeatString s then heartbeatCounter s + 1 else 0)"
  proof (cases "prevHeartbeatString s = Some g \<and> 2 \<le> heartbeatCounter s")
    case True
    then have p: "prevHeartbeatString s = Some g" and c: "2 \<le> heartbeatCounter s" by simp_all
    show ?thesis
      by (simp add: beat_stalled_snd(4) [OF assms(1) p c] p)
  next
    case False
    then have "Some g \<noteq> prevHeartbeatString s \<or> heartbeatCounter s < 2" by auto
    then show ?thesis
      by (simp add: beat_quiet [OF assms(1)] pingHeartbeat_def setTimeout_def clearTimeout_def)
  qed
qed

lemma three_repeats:
  assumes "prevHeartbeatString s = Some g"
    and "heartbeatSignature a1 = Some g" and "heartbeatSignature a2 = Some g"
    and "fst (runBeats d [a1, a2] s) = None"
  shows "prevHeartbeatString (snd (runBeats d [a1, a2] s)) = Some g"
    and "2 \<le> heartbeatCounter (snd (runBeats d [a1, a2] s))"
proof -
  let ?t1 = "s\<lparr>activities := a1\<rparr>"
  obtain e1 s1 where b1: "beat d ?t1 = (e1, s1)" by (cases "beat d ?t1")
  have e1: "e1 = None" using assms(4) b1 by (cases e1) simp_all
  let ?t2 = "s1\<lparr>activities := a2\<rparr>"
  obtain e2 s2 where b2: "beat d ?t2 = (e2, s2)" by (cases "beat d ?t2")
  have e2: "e2 = None" using assms(4) b1 e1 b2 by (cases e2) simp_all
  have r: "snd (runBeats d [a1, a2] s) = s2" by (simp add: b1 e1 b2 e2)
  have sig1: "heartbeatSignature (activities ?t1) = Some g" by (simp add: assms(2))
  have ok1: "fst (beat d ?t1) = None" by (simp add: b1 e1)
  have p1: "prevHeartbeatString s1 = Some g"
    using beat_ok_bookkeeping(1) [OF sig1 ok1] by (simp add: b1)
  have c1: "heartbeatCounter s1 = heartbeatCounter s + 1"
    using beat_ok_bookkeeping(2) [OF sig1 ok1] by (simp add: b1 assms(1))
  have sig2: "heartbeatSignature (activities ?t2) = Some g" by (simp add: assms(3))
  have ok2: "fst (beat d ?t2) = None" by (simp add: b2 e2)
  have p2: "prevHeartbeatString s2 = Some g"
    using beat_ok_bookkeeping(1) [OF sig2 ok2] by (simp add: b2)
  have c2: "heartbeatCounter s2 = heartbeatCounter s1 + 1"
    using beat_ok_bookkeeping(2) [OF sig2 ok2] by (simp add: b2 p1)
  show "prevHeartbeatString (snd (runBeats d [a1, a2] s)) = Some g"
    unfolding r by (rule p2)
  show "2 \<le> heartbeatCounter (snd (runBeats d [a1, a2] s))"
    unfolding r by (simp add: c2 c1)
qed

lemma changesFromStored_never_finalizes:
  assumes "changesFromStored (prevHeartbeatString s) as"
  shows "fst (runBeats d as s) = None \<and>
         finishCalls (snd (runBeats d as s)) = finishCalls s \<and>
         logs (snd (runBeats d as s)) = logs s \<and>
         heap (snd (runBeats d as s)) = heap s \<and>
         spanRecorder (snd (runBeats d as s)) = spanRecorder s"
  using assms
proof (induction as arbitrary: s)
  case Nil
  show ?case by simp
next
  case (Cons a as)
  let ?t = "s\<lparr>activities := a\<rparr>"
  show ?case
  proof (cases "heartbeatSignature a")
    case None
    then have sg: "heartbeatSignature (activities ?t) = None" by simp
    let ?u = "pingHeartbeat (clearTimeout (heartbeatTimer ?t) ?t)"
    have b: "beat d ?t = (None, ?u)" by (rule beat_empty [OF sg])
    have "changesFromStored (prevHeartbeatString ?u) as"
      using Cons.prems None by (simp add: pingHeartbeat_def setTimeout_def clearTimeout_def)
    from Cons.IH [OF this] show ?thesis
      by (simp add: b pingHeartbeat_def setTimeout_def clearTimeout_def)
  next
    case (Some g)
    then have sg: "heartbeatSignature (activities ?t) = Some g" by simp
    from Cons.prems Some have ne: "Some g \<noteq> prevHeartbeatString ?t" and ch: "changesFromStored (Some g) as"
      by simp_all
    let ?u = "pingHeartbeat ((clearTimeout (heartbeatTimer ?t) ?t)
        \<lparr>heartbeatCounter := (if Some g = prevHeartbeatString ?t then heartbeatCounter ?t + 1 else 0),
         prevHeartbeatString := Some g\<rparr>)"
    have b: "beat d ?t = (None, ?u)"
      by (rule beat_quiet [OF sg]) (use ne in simp)
    have "changesFromStored (prevHeartbeatString ?u) as"
      using ch by (simp add: pingHeartbeat_def setTimeout_def clearTimeout_def)
    from Cons.IH [OF this] show ?thesis
      by (simp add: b pingHeartbeat_def setTimeout_def clearTimeout_def)
  qed
qed

lemma quiet_tick:
  assumes "heartbeatSignature a = Some g"
    and "Some g \<noteq> prevHeartbeatString s \<or> heartbeatCounter s < 2"
  shows "fst (beat d (s\<lparr>activities := a\<rparr>)) = None"
    and "prevHeartbeatString (snd (beat d (s\<lparr>activities := a\<rparr>))) = Some g"
    and "heartbeatCounter (snd (beat d (s\<lparr>activities := a\<rparr>))) =
           (if Some g = prevHeartbeatString s then heartbeatCounter s + 1 else 0)"
    and "finishCalls (snd (beat d (s\<lparr>activities := a\<rparr>))) = finishCalls s"
    and "logs (snd (beat d (s\<lparr>activities := a\<rparr>))) = logs s"
    and "heap (snd (beat d (s\<lparr>activities := a\<rparr>))) = heap s"
    and "spanRecorder (snd (beat d (s\<lparr>activities := a\<rparr>))) = spanRecorder s"
proof -
  let ?t = "s\<lparr>activities := a\<rparr>"
  have sg: "heartbeatSignature (activities ?t) = Some g" by (simp add: assms(1))
  have q: "Some g \<noteq> prevHeartbeatString ?t \<or> heartbeatCounter ?t < 2"
    using assms(2) by simp
  note b = beat_quiet [OF sg q, of d]
  show "fst (beat d ?t) = None" by (simp add: b)
  show "prevHeartbeatString (snd (beat d ?t)) = Some g"
    by (simp add: b pingHeartbeat_def setTimeout_def clearTimeout_def)
  show "heartbeatCounter (snd (beat d ?t)) =
           (if Some g = prevHeartbeatString s then heartbeatCounter s + 1 else 0)"
    by (simp add: b pingHeartbeat_def setTimeout_def clearTimeout_def)
  show "finishCalls (snd (beat d ?t)) = finishCalls s"
    by (simp add: b pingHeartbeat_def setTimeout_def clearTimeout_def)
  show "logs (snd (beat d ?t)) = logs s"
    by (simp add: b pingHeartbeat_def setTimeout_def clearTimeout_def)
  show "heap (snd (beat d ?t)) = heap s"
    by (simp add: b pingHeartbeat_def setTimeout_def clearTimeout_def)
  show "spanRecorder (snd (beat d ?t)) = spanRecorder s"
    by (simp add: b pingHeartbeat_def setTimeout_def clearTimeout_def)
qed

lemma runBeats_step:
  assumes "fst (beat d (s\<lparr>activities := a\<rparr>)) = None"
  shows "runBeats d (a # as) s = runBeats d as (snd (beat d (s\<lparr>activities := a\<rparr>)))"
  using assms by (cases "beat d (s\<lparr>activities := a\<rparr>)") simp

lemma first_three_ticks:
  assumes ne: "prevHeartbeatString t \<noteq> Some h"
    and s1: "heartbeatSignature a1 = Some h" and s2: "heartbeatSignature a2 = Some h"
    and s3: "heartbeatSignature a3 = Some h"
  shows "fst (runBeats d [a1, a2, a3] t) = None"
    and "prevHeartbeatString (snd (runBeats d [a1, a2, a3] t)) = Some h"
    and "heartbeatCounter (snd (runBeats d [a1, a2, a3] t)) = 2"
    and "finishCalls (snd (runBeats d [a1, a2, a3] t)) = finishCalls t"
    and "logs (snd (runBeats d [a1, a2, a3] t)) = logs t"
    and "heap (snd (runBeats d [a1, a2, a3] t)) = heap t"
    and "spanRecorder (snd (runBeats d [a1, a2, a3] t)) = spanRecorder t"
proof -
  define u1 where "u1 = snd (beat d (t\<lparr>activities := a1\<rparr>))"
  define u2 where "u2 = snd (beat d (u1\<lparr>activities := a2\<rparr>))"
  define u3 where "u3 = snd (beat d (u2\<lparr>activities := a3\<rparr>))"
  have q1: "Some h \<noteq> prevHeartbeatString t \<or> heartbeatCounter t < 2" using ne by auto
  note k1 = quiet_tick [OF s1 q1, of d, folded u1_def]
  have c1: "heartbeatCounter u1 = 0" using k1(3) ne by auto
  have q2: "Some h \<noteq> prevHeartbeatString u1 \<or> heartbeatCounter u1 < 2" using c1 by simp
  note k2 = quiet_tick [OF s2 q2, of d, folded u2_def]
  have c2: "heartbeatCounter u2 = 1" using k2(3) k1(2) c1 by simp
  have q3: "Some h \<noteq> prevHeartbeatString u2 \<or> heartbeatCounter u2 < 2" using c2 by simp
  note k3 = quiet_tick [OF s3 q3, of d, folded u3_def]
  have c3: "heartbeatCounter u3 = 2" using k3(3) k2(2) c2 by simp
  note r1 = runBeats_step [OF k1(1), of "[a2, a3]", folded u1_def]
  note r2 = runBeats_step [OF k2(1), of "[a3]", folded u2_def]
  note r3 = runBeats_step [OF k3(1), of "[]", folded u3_def]
  have r: "runBeats d [a1, a2, a3] t = (None, u3)"
    by (simp only: r1 r2 r3 runBeats.simps(1))
  show "fst (runBeats d [a1, a2, a3] t) = None" by (simp only: r fst_conv)
  show "prevHeartbeatString (snd (runBeats d [a1, a2, a3] t)) = Some h"
    by (simp only: r snd_conv k3(2))
  show "heartbeatCounter (snd (runBeats d [a1, a2, a3] t)) = 2"
    by (simp only: r snd_conv c3)
  show "finishCalls (snd (runBeats d [a1, a2, a3] t)) = finishCalls t"
    by (simp only: r snd_conv k3(4) k2(4) k1(4))
  show "logs (snd (runBeats d [a1, a2, a3] t)) = logs t"
    by (simp only: r snd_conv k3(5) k2(5) k1(5))
  show "heap (snd (runBeats d [a1, a2, a3] t)) = heap t"
    by (simp only: r snd_conv k3(6) k2(6) k1(6))
  show "spanRecorder (snd (runBeats d [a1, a2, a3] t)) = spanRecorder t"
    by (simp only: r snd_conv k3(7) k2(7) k1(7))
qed

lemma fourth_tick:
  assumes ne: "prevHeartbeatString t \<noteq> Some h"
    and s1: "heartbeatSignature a1 = Some h" and s2: "heartbeatSignature a2 = Some h"
    and s3: "heartbeatSignature a3 = Some h" and s4: "heartbeatSignature a4 = Some h"
  shows "3 \<le> heartbeatCounter (snd (beat d ((snd (runBeats d [a1, a2, a3] t))\<lparr>activities := a4\<rparr>)))"
    and "status (heap (snd (beat d ((snd (runBeats d [a1, a2, a3] t))\<lparr>activities := a4\<rparr>)))
                  (self (snd (runBeats d [a1, a2, a3] t)))) = Some DeadlineExceeded"
    and "map_of (tags (heap (snd (beat d ((snd (runBeats d [a1, a2, a3] t))\<lparr>activities := a4\<rparr>)))
                  (self (snd (runBeats d [a1, a2, a3] t))))) ''heartbeat'' = Some ''failed''"
proof -
  define s3' where "s3' = snd (runBeats d [a1, a2, a3] t)"
  define t4 where "t4 = s3'\<lparr>activities := a4\<rparr>"
  have p: "prevHeartbeatString s3' = Some h" and c: "heartbeatCounter s3' = 2"
    unfolding s3'_def using first_three_ticks(2,3) [OF ne s1 s2 s3, of d] by blast+
  have sg: "heartbeatSignature (activities t4) = Some h" by (simp add: t4_def s4)
  have p4: "prevHeartbeatString t4 = Some h" using p by (simp add: t4_def)
  have c4: "2 \<le> heartbeatCounter t4" using c by (simp add: t4_def)
  have sf: "self t4 = self s3'" by (simp add: t4_def)
  have "3 \<le> heartbeatCounter (snd (beat d t4))"
    using c4 by (simp add: beat_stalled_snd(4) [OF sg p4 c4])
  then show "3 \<le> heartbeatCounter (snd (beat d ((snd (runBeats d [a1, a2, a3] t))\<lparr>activities := a4\<rparr>)))"
    unfolding t4_def s3'_def .
  have "status (heap (snd (beat d t4)) (self s3')) = Some DeadlineExceeded"
    using stalled_tick(1) [OF sg p4 c4, of d] by (simp add: sf)
  then show "status (heap (snd (beat d ((snd (runBeats d [a1, a2, a3] t))\<lparr>activities := a4\<rparr>)))
                  (self (snd (runBeats d [a1, a2, a3] t)))) = Some DeadlineExceeded"
    unfolding t4_def s3'_def .
  have "map_of (tags (heap (snd (beat d t4)) (self s3'))) ''heartbeat'' = Some ''failed''"
    using stalled_tick(2) [OF sg p4 c4, of d] by (simp add: sf)
  then show "map_of (tags (heap (snd (beat d ((snd (runBeats d [a1, a2, a3] t))\<lparr>activities := a4\<rparr>)))
                  (self (snd (runBeats d [a1, a2, a3] t))))) ''heartbeat'' = Some ''failed''"
    unfolding t4_def s3'_def .
qed

subsection \<open>Evaluation of the examples\<close>

lemma sig_a1: "heartbeatSignature [(''a1'', True)] = Some ''a1''"
  by (simp add: heartbeatSignature_def Object_keys_def isArrayIndex_def isDigit_def)

lemma sig_a1b2: "heartbeatSignature [(''a1'', True), (''b2'', True)] = Some ''a1b2''"
  by (simp add: heartbeatSignature_def Object_keys_def isArrayIndex_def isDigit_def)

lemma sig_b2: "heartbeatSignature [(''b2'', True)] = Some ''b2''"
  by (simp add: heartbeatSignature_def Object_keys_def isArrayIndex_def isDigit_def)

lemma sig_nil: "heartbeatSignature [] = None"
  by (simp add: heartbeatSignature_def Object_keys_def)

lemmas eval_defs = finishIdleTransaction_def logMsg_def setStatus_def setTag_def updSpan_def
  protoFinish_def clearTimeout_def falsy_def callFinish_cases Let_def

lemma demo_recorder: "spanRecorder demoState = Some (plainRecorder [0, 1, 2, 3])"
  by (simp add: demoState_def)

lemma demo_proto: "finish (heap demoState (self demoState)) = ProtoFinish"
  by (simp add: demo_defs)

lemma stalled_sig: "heartbeatSignature (activities stalledState) = Some ''a1''"
  by (simp add: stalledState_def sig_a1)

lemma stalled_after_beat:
  "fst (beat 5 stalledState) = None \<and>
   finishCalls (snd (beat 5 stalledState)) = [None] \<and>
   map timerCallback (timers (snd (beat 5 stalledState))) = [CbFinishIdle (7 / 2), CbBeat]"
  by (simp add: beat_def demo_defs eval_defs Object_keys_def isArrayIndex_def isDigit_def)

lemma seenOnce_prev: "prevHeartbeatString seenOnce = Some ''a1'' \<and> heartbeatCounter seenOnce = 0"
  by (simp add: seenOnce_def beat_def demo_defs eval_defs Object_keys_def isArrayIndex_def isDigit_def)

lemma seenOnce_run: "fst (runBeats 5 [[(''a1'', True)], [(''a1'', True)]] seenOnce) = None"
  by (simp add: seenOnce_def beat_def demo_defs eval_defs Object_keys_def isArrayIndex_def isDigit_def)

lemma demo_changesFromStored:
  "changesFromStored (prevHeartbeatString demoState)
     [[(''a1'', True)], [(''a1'', True), (''b2'', True)], [], [(''b2'', True)]]"
  by (simp add: sig_a1 sig_a1b2 sig_b2 sig_nil demo_defs)

section \<open>Finalize called more than once\<close>

text \<open>
  Claim C1 has a finalized flag make every finalize after the first a no-op, so that the
  underlying finish is invoked at most once. The class has no such flag. In
  \<open>stalledState\<close> the heartbeat timer (1) and an idle timer (2) are both pending: the
  heartbeat tick force-finalizes, the idle timer then finalizes again, and the underlying
  finish has been called twice.
\<close>

theorem finalize_runs_twice:
  "finishCalls (snd (fireTimer 5 2 (snd (fireTimer 5 1 stalledState)))) = [None, None]"
  by (simp add: fireTimer_def runCallback_def beat_def demo_defs eval_defs
      Object_keys_def isArrayIndex_def isDigit_def)

text \<open>
  Claim C1, as the code has it: \<open>_finishIdleTransaction\<close> is not guarded. On a
  transaction that has a span recorder and whose \<open>finish\<close> is still the inherited
  method, every call returns normally and invokes the underlying finish once more, so a
  sequence of finalize calls, whoever makes them, invokes it once per call.
\<close>

theorem finalize_is_not_guarded:
  assumes "spanRecorder s = Some rc" and "finish (heap s (self s)) = ProtoFinish"
  shows "fst (finishIdleTransaction (Suc d) e s) = None \<and>
         finishCalls (snd (finishIdleTransaction (Suc d) e s)) = finishCalls s @ [None] \<and>
         finishCalls (finalizeAll (Suc d) es s) = finishCalls s @ replicate (length es) None"
proof -
  have "finishCalls (finalizeAll (Suc d) es s) = finishCalls s @ replicate (length es) None"
    using assms
  proof (induction es arbitrary: s rc)
    case Nil
    show ?case by simp
  next
    case (Cons e es)
    let ?s' = "snd (finishIdleTransaction (Suc d) e s)"
    have r: "spanRecorder ?s' = Some (rc\<lparr>spans := filter (\<lambda>r. spanId (heap s r) = spanId (heap s (self s)) \<or>
                                   startTimestamp (heap s r) < e) (spans rc)\<rparr>)"
      by (rule finishIdle_recorder [OF Cons.prems(1)])
    have f: "finish (heap ?s' (self ?s')) = ProtoFinish"
      by (simp add: finishIdle_self finishIdle_proto(3) [OF Cons.prems])
    have "finishCalls (finalizeAll (Suc d) es ?s') = finishCalls ?s' @ replicate (length es) None"
      by (rule Cons.IH [OF r f])
    then show ?case
      by (simp add: finishIdle_proto(2) [OF Cons.prems] replicate_app_Cons_same)
  qed
  then show ?thesis
    by (simp add: finishIdle_proto(1,2) [OF assms])
qed

theorem finalize_is_not_guarded_witness:
  "spanRecorder demoState = Some (plainRecorder [0, 1, 2, 3]) \<and>
   finish (heap demoState (self demoState)) = ProtoFinish \<and>
   fst (finishIdleTransaction (Suc 4) 10 demoState) = None \<and>
   finishCalls (snd (finishIdleTransaction (Suc 4) 10 demoState)) = [None] \<and>
   finishCalls (finalizeAll (Suc 4) [10, 11, 12] demoState) = [None, None, None]"
proof -
  have e: "finishCalls demoState = []" by (simp add: demo_defs)
  show ?thesis
    using finalize_is_not_guarded [OF demo_recorder demo_proto, of 4 10 "[10, 11, 12]"]
      demo_recorder demo_proto
    by (simp add: e)
qed

section \<open>The wiring of the activity callbacks\<close>

text \<open>
  Claim C2 has \<open>add\<close> run the push callback and the span's finish run the pop
  callback. \<open>initSpanRecorder\<close> passes \<open>this._popActivity\<close> where the recorder's
  constructor expects the push callback and \<open>this._pushActivity\<close> where it expects the
  pop callback, both without their receiver. On a freshly constructed transaction the
  recorder's push field holds the pop function and its pop field the push function;
  \<open>initSpanRecorder\<close> throws when \<open>add\<close> calls the callback on the recorder, and so
  does a later \<open>add\<close> of a child span; the activity set stays empty throughout.
\<close>

theorem initSpanRecorder_swaps_callbacks:
  "map_option recPushActivity (spanRecorder (snd (initSpanRecorder None (newIdleTransaction ''tx'' 0 500 3))))
      = Some (Some FnPopActivity) \<and>
   map_option recPopActivity (spanRecorder (snd (initSpanRecorder None (newIdleTransaction ''tx'' 0 500 3))))
      = Some (Some FnPushActivity) \<and>
   fst (initSpanRecorder None (newIdleTransaction ''tx'' 0 500 3)) = Some TypeError \<and>
   activities (snd (initSpanRecorder None (newIdleTransaction ''tx'' 0 500 3))) = [] \<and>
   fst (add 1 (snd (initSpanRecorder None (newIdleTransaction ''tx'' 0 500 3)))) = Some TypeError \<and>
   activities (snd (add 1 (snd (initSpanRecorder None (newIdleTransaction ''tx'' 0 500 3))))) = []"
  by (simp add: initSpanRecorder_def add_def newIdleTransactionSpanRecorder_def demo_defs
      Let_def updSpan_def baseAdd_def callActivityFn_def popActivity_def pushActivity_def)

section \<open>Finishing a span added through the idle-aware recorder\<close>

text \<open>
  Claim C3 has a call of \<open>finish\<close> on a span added through the idle-aware recorder
  terminate, run the span's original finish once and then the activity callback. In the
  code the arrow function stored by \<open>add\<close> calls \<open>span.finish\<close>, which by then is
  that arrow function: whatever the stack depth available, the call ends in a stack
  overflow, in an unchanged state, so neither the original finish nor the callback runs.
\<close>

theorem patched_finish_never_returns:
  "spanRecorder s = Some rc \<Longrightarrow> idleAware rc \<Longrightarrow>
   finish (heap (snd (add r s)) r) = PatchedFinish (recPopActivity rc) \<and>
   callFinish d r e (snd (add r s)) = (Some RangeError, snd (add r s))"
proof -
  assume rc: "spanRecorder s = Some rc" and ia: "idleAware rc"
  have "finish (heap (snd (add r s)) r) = PatchedFinish (recPopActivity rc)"
    using rc ia
    by (simp add: add_def Let_def updSpan_def callActivityFn_def pushActivity_def popActivity_def
        split: option.splits activity_fn.splits)
  then show ?thesis by (simp add: callFinish_cases)
qed

theorem patched_finish_never_returns_witness:
  "spanRecorder idleState = Some (newIdleTransactionSpanRecorder None None None) \<and>
   idleAware (newIdleTransactionSpanRecorder None None None) \<and>
   fst (add 1 idleState) = None \<and>
   fst (callFinish 1000 1 (Some 4) (snd (add 1 idleState))) = Some RangeError \<and>
   endTimestamp (heap (snd (callFinish 1000 1 (Some 4) (snd (add 1 idleState)))) 1) = None"
proof -
  have h1: "spanRecorder idleState = Some (newIdleTransactionSpanRecorder None None None)"
    by (simp add: idleState_def)
  have h2: "idleAware (newIdleTransactionSpanRecorder None None None)"
    by (simp add: newIdleTransactionSpanRecorder_def)
  have h3: "fst (add 1 idleState) = None"
    by (simp add: add_def idleState_def newIdleTransactionSpanRecorder_def Let_def)
  have h4: "endTimestamp (heap (snd (add 1 idleState)) 1) = None"
    by (simp add: add_def idleState_def newIdleTransactionSpanRecorder_def Let_def updSpan_def
        demo_defs)
  show ?thesis
    using h1 h2 h3 h4 patched_finish_never_returns [OF h1 h2, of 1 1000 "Some 4"]
    by simp
qed

text \<open>
  \<open>initSpanRecorder\<close> adds the transaction itself to its recorder, so the transaction's
  own \<open>finish\<close> is patched in the same way: on a transaction set up through
  \<open>initSpanRecorder\<close>, \<open>_finishIdleTransaction\<close> overflows the stack at
  \<open>this.finish()\<close>, whatever the stack depth, and the underlying finish is never reached.
  The statements on finalize that speak of the underlying finish are therefore about a
  transaction whose \<open>finish\<close> is still the inherited method.
\<close>

lemma finalize_after_initSpanRecorder:
  "fst (finishIdleTransaction d e (snd (initSpanRecorder None (newIdleTransaction ''tx'' 0 500 3))))
     = Some RangeError \<and>
   finishCalls (snd (finishIdleTransaction d e
      (snd (initSpanRecorder None (newIdleTransaction ''tx'' 0 500 3))))) = []"
  by (simp add: initSpanRecorder_def add_def newIdleTransactionSpanRecorder_def demo_defs
      baseAdd_def callActivityFn_def popActivity_def pushActivity_def eval_defs)

section \<open>Reconciliation of the recorded spans\<close>

text \<open>
  Claim C4: when \<open>_finishIdleTransaction(endTimestamp)\<close> runs on a transaction with a
  span recorder, the recorder afterwards holds, in their old order, exactly the entries
  that carry the transaction's own span id or start strictly before \<open>endTimestamp\<close>.
  So the transaction's own entry is always retained, and any other entry is retained if
  and only if its start is strictly before \<open>endTimestamp\<close>, that is, removed when it
  starts at or after it. Every other recorded span that had no end time has its end time
  set to \<open>endTimestamp\<close> and its status set to Cancelled, whether it is then retained or
  removed. This holds whether or not the final call of \<open>finish\<close> returns.
\<close>

theorem finalize_reconciles_spans:
  assumes "spanRecorder s = Some rc"
  shows "\<exists>rc'. spanRecorder (snd (finishIdleTransaction d e s)) = Some rc' \<and>
      spans rc' = filter (\<lambda>r. spanId (heap s r) = spanId (heap s (self s)) \<or>
                               startTimestamp (heap s r) < e) (spans rc) \<and>
      (\<forall>r \<in> set (spans rc). spanId (heap s r) = spanId (heap s (self s)) \<longrightarrow> r \<in> set (spans rc')) \<and>
      (\<forall>r \<in> set (spans rc). spanId (heap s r) \<noteq> spanId (heap s (self s)) \<longrightarrow>
          (r \<in> set (spans rc') \<longleftrightarrow> startTimestamp (heap s r) < e)) \<and>
      (\<forall>r \<in> set (spans rc). spanId (heap s r) \<noteq> spanId (heap s (self s)) \<longrightarrow>
          endTimestamp (heap s r) = None \<longrightarrow>
          endTimestamp (heap (snd (finishIdleTransaction d e s)) r) = Some e \<and>
          status (heap (snd (finishIdleTransaction d e s)) r) = Some Cancelled)"
proof -
  let ?keep = "\<lambda>r. spanId (heap s r) = spanId (heap s (self s)) \<or> startTimestamp (heap s r) < e"
  let ?rc' = "rc\<lparr>spans := filter ?keep (spans rc)\<rparr>"
  have a: "spanRecorder (snd (finishIdleTransaction d e s)) = Some ?rc'"
    by (rule finishIdle_recorder [OF assms])
  have b: "spans ?rc' = filter ?keep (spans rc)" by simp
  have c: "endTimestamp (heap (snd (finishIdleTransaction d e s)) r) = Some e \<and>
           status (heap (snd (finishIdleTransaction d e s)) r) = Some Cancelled"
    if "r \<in> set (spans rc)" and "spanId (heap s r) \<noteq> spanId (heap s (self s))"
      and "endTimestamp (heap s r) = None" for r
  proof -
    from that(2) have "r \<noteq> self s" by auto
    then show ?thesis
      using that by (simp add: finishIdle_heap_other [OF assms] cancelPending_def falsy_def)
  qed
  show ?thesis
    using a b c by (intro exI [of _ ?rc']) auto
qed

theorem finalize_reconciles_spans_witness:
  "spanRecorder demoState = Some (plainRecorder [0, 1, 2, 3]) \<and>
   map_option spans (spanRecorder (snd (finishIdleTransaction 5 10 demoState))) = Some [0, 1, 3] \<and>
   endTimestamp (heap (snd (finishIdleTransaction 5 10 demoState)) 1) = Some 10 \<and>
   status (heap (snd (finishIdleTransaction 5 10 demoState)) 1) = Some Cancelled"
proof -
  from finalize_reconciles_spans [OF demo_recorder, of 5 10]
  obtain rc' where r: "spanRecorder (snd (finishIdleTransaction 5 10 demoState)) = Some rc'"
    and k: "spans rc' = filter (\<lambda>r. spanId (heap demoState r) = spanId (heap demoState (self demoState))
              \<or> startTimestamp (heap demoState r) < 10) (spans (plainRecorder [0, 1, 2, 3]))"
    and c: "\<forall>r \<in> set (spans (plainRecorder [0, 1, 2, 3])).
          spanId (heap demoState r) \<noteq> spanId (heap demoState (self demoState)) \<longrightarrow>
          endTimestamp (heap demoState r) = None \<longrightarrow>
          endTimestamp (heap (snd (finishIdleTransaction 5 10 demoState)) r) = Some 10 \<and>
          status (heap (snd (finishIdleTransaction 5 10 demoState)) r) = Some Cancelled"
    by blast
  have "spans rc' = [0, 1, 3]"
    unfolding k by (simp add: demo_defs)
  moreover have "endTimestamp (heap (snd (finishIdleTransaction 5 10 demoState)) 1) = Some 10 \<and>
          status (heap (snd (finishIdleTransaction 5 10 demoState)) 1) = Some Cancelled"
  proof -
    have "1 \<in> set (spans (plainRecorder [0, 1, 2, 3]))" by (simp add: plainRecorder_def)
    moreover have "spanId (heap demoState 1) \<noteq> spanId (heap demoState (self demoState))"
      by (simp add: demo_defs)
    moreover have "endTimestamp (heap demoState 1) = None" by (simp add: demo_defs)
    ultimately show ?thesis using c by blast
  qed
  ultimately show ?thesis using r demo_recorder by simp
qed

section \<open>The end timestamp handed to finalize\<close>

text \<open>
  Claim C5 has finalize set the transaction's own end time to the timestamp it was
  given. \<open>_finishIdleTransaction\<close> calls \<open>this.finish()\<close> without an argument. In
  \<open>demoState\<close> the clock reads 3; finalize with end timestamp 10 reaches the underlying
  finish with no timestamp, and the transaction's end time becomes 3.
\<close>

theorem finalize_drops_end_timestamp:
  "now demoState = 3 \<and>
   fst (finishIdleTransaction 5 10 demoState) = None \<and>
   finishCalls (snd (finishIdleTransaction 5 10 demoState)) = [None] \<and>
   endTimestamp (heap (snd (finishIdleTransaction 5 10 demoState)) (self demoState)) = Some 3"
  by (simp add: finishIdleTransaction_def demo_defs field_defs Let_def callFinish_cases)

section \<open>Heartbeat stall detection\<close>

text \<open>
  Claim C6 has the heartbeat force-finalize at the third of three consecutive ticks that
  observe the same non-empty signature, and never when the signature changes on every
  tick. The code does neither. On the fresh transaction \<open>demoState\<close>, three consecutive
  ticks that each find the activity set \<open>a1\<close> return normally and leave the counter at
  2, with no call of the underlying finish and no status set: the first of them only
  stores the signature. And when the activity set alternates between \<open>a1\<close> and the
  empty set, the signature differs between any two consecutive ticks, yet a tick on the
  empty set neither stores a signature nor resets the counter; the ticks that find
  \<open>a1\<close> bring the counter to 0, 1, 2 and 3, and the seventh tick force-finalizes with
  status DeadlineExceeded.
\<close>

theorem heartbeat_three_ticks_and_alternation:
  "heartbeatSignature [(''a1'', True)] = Some ''a1'' \<and>
   prevHeartbeatString demoState = None \<and>
   fst (runBeats 5 [[(''a1'', True)], [(''a1'', True)], [(''a1'', True)]] demoState) = None \<and>
   heartbeatCounter (snd (runBeats 5 [[(''a1'', True)], [(''a1'', True)], [(''a1'', True)]] demoState)) = 2 \<and>
   finishCalls (snd (runBeats 5 [[(''a1'', True)], [(''a1'', True)], [(''a1'', True)]] demoState)) = [] \<and>
   status (heap (snd (runBeats 5 [[(''a1'', True)], [(''a1'', True)], [(''a1'', True)]] demoState))
             (self demoState)) = None \<and>
   map heartbeatSignature
       [[(''a1'', True)], [], [(''a1'', True)], [], [(''a1'', True)], [], [(''a1'', True)]]
     = [Some ''a1'', None, Some ''a1'', None, Some ''a1'', None, Some ''a1''] \<and>
   fst (runBeats 5 [[(''a1'', True)], [], [(''a1'', True)], [], [(''a1'', True)], [], [(''a1'', True)]]
          demoState) = None \<and>
   finishCalls (snd (runBeats 5
       [[(''a1'', True)], [], [(''a1'', True)], [], [(''a1'', True)], [], [(''a1'', True)]]
          demoState)) = [None] \<and>
   status (heap (snd (runBeats 5
       [[(''a1'', True)], [], [(''a1'', True)], [], [(''a1'', True)], [], [(''a1'', True)]]
          demoState)) (self demoState)) = Some DeadlineExceeded"
  by (simp add: sig_a1 sig_nil beat_def demo_defs eval_defs Object_keys_def isArrayIndex_def
      isDigit_def)

text \<open>
  Claim C6, as the code has it. The heartbeat stores the signature of the last non-empty
  activity set it has seen; the stale counter counts the consecutive non-empty ticks
  whose signature equals the stored one; a tick on an empty set is skipped and changes
  neither. First: a tick that finds a non-empty activity set whose signature is the
  stored one, with the counter already at 2 or more, brings the counter to 3 or more; it
  sets the transaction's status to DeadlineExceeded and the tag \<open>heartbeat = failed\<close>
  and calls \<open>_finishIdleTransaction\<close> with the current time, and status and tag are
  still in place when the tick ends. Second: when three consecutive ticks each find the
  signature that was stored before the first of them, and the first two return normally,
  the counter reaches 3 at the third and that tick force-finalizes in this way. Third:
  when the stored signature is another one or none, as on a fresh transaction, the first
  tick with a new signature stores it and sets the counter to 0; of four consecutive
  ticks with that signature the first three return normally, finalize nothing and leave
  the counter at 2, and the fourth force-finalizes. Conversely: over any number of ticks
  at each of which the activity set is empty or has a signature other than the stored
  one, no tick throws and none finalizes: no call of the underlying finish, no log
  entry, no change to any span or to the recorder.
\<close>

theorem heartbeat_stall_detection:
  "(heartbeatSignature (activities s) = Some g \<and> prevHeartbeatString s = Some g \<and>
      2 \<le> heartbeatCounter s \<longrightarrow>
        beat d s =
          (case finishIdleTransaction d (now s) (safeguardState s) of
             (Some err, s5) \<Rightarrow> (Some err, s5)
           | (None, s5) \<Rightarrow> (None, pingHeartbeat (s5\<lparr>prevHeartbeatString := Some g\<rparr>))) \<and>
        status (heap (snd (beat d s)) (self s)) = Some DeadlineExceeded \<and>
        map_of (tags (heap (snd (beat d s)) (self s))) ''heartbeat'' = Some ''failed'') \<and>
   (prevHeartbeatString t = Some h \<and> heartbeatSignature a1 = Some h \<and>
      heartbeatSignature a2 = Some h \<and> heartbeatSignature a3 = Some h \<and>
      fst (runBeats d [a1, a2] t) = None \<longrightarrow>
        3 \<le> heartbeatCounter (snd (beat d ((snd (runBeats d [a1, a2] t))\<lparr>activities := a3\<rparr>))) \<and>
        status (heap (snd (beat d ((snd (runBeats d [a1, a2] t))\<lparr>activities := a3\<rparr>)))
                  (self (snd (runBeats d [a1, a2] t)))) = Some DeadlineExceeded \<and>
        map_of (tags (heap (snd (beat d ((snd (runBeats d [a1, a2] t))\<lparr>activities := a3\<rparr>)))
                  (self (snd (runBeats d [a1, a2] t))))) ''heartbeat'' = Some ''failed'') \<and>
   (prevHeartbeatString v \<noteq> Some k \<and> heartbeatSignature b1 = Some k \<and>
      heartbeatSignature b2 = Some k \<and> heartbeatSignature b3 = Some k \<and>
      heartbeatSignature b4 = Some k \<longrightarrow>
        fst (runBeats d [b1, b2, b3] v) = None \<and>
        heartbeatCounter (snd (runBeats d [b1, b2, b3] v)) = 2 \<and>
        finishCalls (snd (runBeats d [b1, b2, b3] v)) = finishCalls v \<and>
        logs (snd (runBeats d [b1, b2, b3] v)) = logs v \<and>
        heap (snd (runBeats d [b1, b2, b3] v)) = heap v \<and>
        spanRecorder (snd (runBeats d [b1, b2, b3] v)) = spanRecorder v \<and>
        3 \<le> heartbeatCounter
               (snd (beat d ((snd (runBeats d [b1, b2, b3] v))\<lparr>activities := b4\<rparr>))) \<and>
        status (heap (snd (beat d ((snd (runBeats d [b1, b2, b3] v))\<lparr>activities := b4\<rparr>)))
                  (self (snd (runBeats d [b1, b2, b3] v)))) = Some DeadlineExceeded \<and>
        map_of (tags (heap (snd (beat d ((snd (runBeats d [b1, b2, b3] v))\<lparr>activities := b4\<rparr>)))
                  (self (snd (runBeats d [b1, b2, b3] v))))) ''heartbeat'' = Some ''failed'') \<and>
   (changesFromStored (prevHeartbeatString u) as \<longrightarrow>
        fst (runBeats d as u) = None \<and>
        finishCalls (snd (runBeats d as u)) = finishCalls u \<and>
        logs (snd (runBeats d as u)) = logs u \<and>
        heap (snd (runBeats d as u)) = heap u \<and>
        spanRecorder (snd (runBeats d as u)) = spanRecorder u)"
proof -
  have A: "beat d s =
          (case finishIdleTransaction d (now s) (safeguardState s) of
             (Some err, s5) \<Rightarrow> (Some err, s5)
           | (None, s5) \<Rightarrow> (None, pingHeartbeat (s5\<lparr>prevHeartbeatString := Some g\<rparr>))) \<and>
        status (heap (snd (beat d s)) (self s)) = Some DeadlineExceeded \<and>
        map_of (tags (heap (snd (beat d s)) (self s))) ''heartbeat'' = Some ''failed''"
    if "heartbeatSignature (activities s) = Some g \<and> prevHeartbeatString s = Some g \<and>
      2 \<le> heartbeatCounter s"
  proof -
    from that have sg: "heartbeatSignature (activities s) = Some g"
      and p: "prevHeartbeatString s = Some g" and c: "2 \<le> heartbeatCounter s" by simp_all
    show ?thesis
      using beat_stalled [OF sg p c, of d] stalled_tick(1) [OF sg p c, of d]
        stalled_tick(2) [OF sg p c, of d]
      by (intro conjI)
  qed
  have B: "3 \<le> heartbeatCounter (snd (beat d ((snd (runBeats d [a1, a2] t))\<lparr>activities := a3\<rparr>))) \<and>
        status (heap (snd (beat d ((snd (runBeats d [a1, a2] t))\<lparr>activities := a3\<rparr>)))
                  (self (snd (runBeats d [a1, a2] t)))) = Some DeadlineExceeded \<and>
        map_of (tags (heap (snd (beat d ((snd (runBeats d [a1, a2] t))\<lparr>activities := a3\<rparr>)))
                  (self (snd (runBeats d [a1, a2] t))))) ''heartbeat'' = Some ''failed''"
    if b: "prevHeartbeatString t = Some h \<and> heartbeatSignature a1 = Some h \<and>
      heartbeatSignature a2 = Some h \<and> heartbeatSignature a3 = Some h \<and>
      fst (runBeats d [a1, a2] t) = None"
  proof -
    define s2 where "s2 = snd (runBeats d [a1, a2] t)"
    define t3 where "t3 = s2\<lparr>activities := a3\<rparr>"
    from b have p: "prevHeartbeatString s2 = Some h" and c: "2 \<le> heartbeatCounter s2"
      unfolding s2_def using three_repeats [of t h a1 a2 d] by blast+
    have sg: "heartbeatSignature (activities t3) = Some h" using b by (simp add: t3_def)
    have p3: "prevHeartbeatString t3 = Some h" using p by (simp add: t3_def)
    have c3: "2 \<le> heartbeatCounter t3" using c by (simp add: t3_def)
    have s3: "self t3 = self s2" by (simp add: t3_def)
    have "3 \<le> heartbeatCounter (snd (beat d t3))"
      using c3 by (simp add: beat_stalled_snd(4) [OF sg p3 c3])
    moreover have "status (heap (snd (beat d t3)) (self s2)) = Some DeadlineExceeded"
      using stalled_tick(1) [OF sg p3 c3, of d] by (simp add: s3)
    moreover have "map_of (tags (heap (snd (beat d t3)) (self s2))) ''heartbeat'' = Some ''failed''"
      using stalled_tick(2) [OF sg p3 c3, of d] by (simp add: s3)
    ultimately show ?thesis unfolding t3_def s2_def by (intro conjI)
  qed
  have D: "fst (runBeats d [b1, b2, b3] v) = None \<and>
        heartbeatCounter (snd (runBeats d [b1, b2, b3] v)) = 2 \<and>
        finishCalls (snd (runBeats d [b1, b2, b3] v)) = finishCalls v \<and>
        logs (snd (runBeats d [b1, b2, b3] v)) = logs v \<and>
        heap (snd (runBeats d [b1, b2, b3] v)) = heap v \<and>
        spanRecorder (snd (runBeats d [b1, b2, b3] v)) = spanRecorder v \<and>
        3 \<le> heartbeatCounter
               (snd (beat d ((snd (runBeats d [b1, b2, b3] v))\<lparr>activities := b4\<rparr>))) \<and>
        status (heap (snd (beat d ((snd (runBeats d [b1, b2, b3] v))\<lparr>activities := b4\<rparr>)))
                  (self (snd (runBeats d [b1, b2, b3] v)))) = Some DeadlineExceeded \<and>
        map_of (tags (heap (snd (beat d ((snd (runBeats d [b1, b2, b3] v))\<lparr>activities := b4\<rparr>)))
                  (self (snd (runBeats d [b1, b2, b3] v))))) ''heartbeat'' = Some ''failed''"
    if h: "prevHeartbeatString v \<noteq> Some k \<and> heartbeatSignature b1 = Some k \<and>
      heartbeatSignature b2 = Some k \<and> heartbeatSignature b3 = Some k \<and>
      heartbeatSignature b4 = Some k"
  proof -
    from h have ne: "prevHeartbeatString v \<noteq> Some k" and s1: "heartbeatSignature b1 = Some k"
      and s2: "heartbeatSignature b2 = Some k" and s3: "heartbeatSignature b3 = Some k"
      and s4: "heartbeatSignature b4 = Some k" by simp_all
    note f = first_three_ticks [OF ne s1 s2 s3, of d]
    note l = fourth_tick [OF ne s1 s2 s3 s4, of d]
    show ?thesis
      using f(1) f(3) f(4) f(5) f(6) f(7) l(1) l(2) l(3) by (intro conjI)
  qed
  have C: "fst (runBeats d as u) = None \<and>
        finishCalls (snd (runBeats d as u)) = finishCalls u \<and>
        logs (snd (runBeats d as u)) = logs u \<and>
        heap (snd (runBeats d as u)) = heap u \<and>
        spanRecorder (snd (runBeats d as u)) = spanRecorder u"
    if "changesFromStored (prevHeartbeatString u) as"
    by (rule changesFromStored_never_finalizes [OF that])
  show ?thesis
  proof (intro conjI)
    show "heartbeatSignature (activities s) = Some g \<and> prevHeartbeatString s = Some g \<and>
      2 \<le> heartbeatCounter s \<longrightarrow>
        beat d s =
          (case finishIdleTransaction d (now s) (safeguardState s) of
             (Some err, s5) \<Rightarrow> (Some err, s5)
           | (None, s5) \<Rightarrow> (None, pingHeartbeat (s5\<lparr>prevHeartbeatString := Some g\<rparr>))) \<and>
        status (heap (snd (beat d s)) (self s)) = Some DeadlineExceeded \<and>
        map_of (tags (heap (snd (beat d s)) (self s))) ''heartbeat'' = Some ''failed''"
      by (rule impI) (rule A)
  qed (use B C D in blast)+
qed

theorem heartbeat_stall_detection_witness:
  "heartbeatSignature (activities stalledState) = Some ''a1'' \<and>
   prevHeartbeatString stalledState = Some ''a1'' \<and>
   2 \<le> heartbeatCounter stalledState \<and>
   status (heap (snd (beat 5 stalledState)) (self stalledState)) = Some DeadlineExceeded \<and>
   map_of (tags (heap (snd (beat 5 stalledState)) (self stalledState))) ''heartbeat'' = Some ''failed'' \<and>
   finishCalls (snd (beat 5 stalledState)) = [None] \<and>
   prevHeartbeatString seenOnce = Some ''a1'' \<and>
   heartbeatCounter seenOnce = 0 \<and>
   fst (runBeats 5 [[(''a1'', True)], [(''a1'', True)]] seenOnce) = None \<and>
   3 \<le> heartbeatCounter (snd (beat 5 ((snd (runBeats 5 [[(''a1'', True)], [(''a1'', True)]] seenOnce))
          \<lparr>activities := [(''a1'', True)]\<rparr>))) \<and>
   status (heap (snd (beat 5 ((snd (runBeats 5 [[(''a1'', True)], [(''a1'', True)]] seenOnce))
          \<lparr>activities := [(''a1'', True)]\<rparr>)))
       (self (snd (runBeats 5 [[(''a1'', True)], [(''a1'', True)]] seenOnce)))) = Some DeadlineExceeded \<and>
   prevHeartbeatString demoState = None \<and>
   fst (runBeats 5 [[(''a1'', True)], [(''a1'', True)], [(''a1'', True)]] demoState) = None \<and>
   heartbeatCounter (snd (runBeats 5 [[(''a1'', True)], [(''a1'', True)], [(''a1'', True)]] demoState)) = 2 \<and>
   finishCalls (snd (runBeats 5 [[(''a1'', True)], [(''a1'', True)], [(''a1'', True)]] demoState)) = [] \<and>
   status (heap (snd (beat 5 ((snd (runBeats 5 [[(''a1'', True)], [(''a1'', True)], [(''a1'', True)]] demoState))
          \<lparr>activities := [(''a1'', True)]\<rparr>)))
       (self (snd (runBeats 5 [[(''a1'', True)], [(''a1'', True)], [(''a1'', True)]] demoState)))) = Some DeadlineExceeded \<and>
   changesFromStored (prevHeartbeatString demoState)
     [[(''a1'', True)], [(''a1'', True), (''b2'', True)], [], [(''b2'', True)]] \<and>
   fst (runBeats 5 [[(''a1'', True)], [(''a1'', True), (''b2'', True)], [], [(''b2'', True)]] demoState) = None \<and>
   finishCalls (snd (runBeats 5 [[(''a1'', True)], [(''a1'', True), (''b2'', True)], [], [(''b2'', True)]] demoState)) = []"
proof -
  note th = heartbeat_stall_detection [where s = stalledState and g = "''a1''" and d = 5
      and t = seenOnce and h = "''a1''" and ?a1.0 = "[(''a1'', True)]" and ?a2.0 = "[(''a1'', True)]"
      and ?a3.0 = "[(''a1'', True)]" and v = demoState and k = "''a1''"
      and ?b1.0 = "[(''a1'', True)]" and ?b2.0 = "[(''a1'', True)]"
      and ?b3.0 = "[(''a1'', True)]" and ?b4.0 = "[(''a1'', True)]" and u = demoState
      and as = "[[(''a1'', True)], [(''a1'', True), (''b2'', True)], [], [(''b2'', True)]]"]
  have hp: "prevHeartbeatString stalledState = Some ''a1''" and hc: "2 \<le> heartbeatCounter stalledState"
    by (simp_all add: stalledState_def)
  have A: "status (heap (snd (beat 5 stalledState)) (self stalledState)) = Some DeadlineExceeded \<and>
     map_of (tags (heap (snd (beat 5 stalledState)) (self stalledState))) ''heartbeat'' = Some ''failed''"
    using th [THEN conjunct1] stalled_sig hp hc by blast
  have B: "3 \<le> heartbeatCounter (snd (beat 5 ((snd (runBeats 5 [[(''a1'', True)], [(''a1'', True)]] seenOnce))
          \<lparr>activities := [(''a1'', True)]\<rparr>))) \<and>
   status (heap (snd (beat 5 ((snd (runBeats 5 [[(''a1'', True)], [(''a1'', True)]] seenOnce))
          \<lparr>activities := [(''a1'', True)]\<rparr>)))
       (self (snd (runBeats 5 [[(''a1'', True)], [(''a1'', True)]] seenOnce)))) = Some DeadlineExceeded"
    using th [THEN conjunct2, THEN conjunct1] seenOnce_prev seenOnce_run sig_a1 by blast
  have e: "finishCalls demoState = []" by (simp add: demo_defs)
  have pn: "prevHeartbeatString demoState = None" by (simp add: demo_defs)
  have ne: "prevHeartbeatString demoState \<noteq> Some ''a1''" by (simp add: pn)
  have D: "fst (runBeats 5 [[(''a1'', True)], [(''a1'', True)], [(''a1'', True)]] demoState) = None \<and>
   heartbeatCounter (snd (runBeats 5 [[(''a1'', True)], [(''a1'', True)], [(''a1'', True)]] demoState)) = 2 \<and>
   finishCalls (snd (runBeats 5 [[(''a1'', True)], [(''a1'', True)], [(''a1'', True)]] demoState)) = [] \<and>
   status (heap (snd (beat 5 ((snd (runBeats 5 [[(''a1'', True)], [(''a1'', True)], [(''a1'', True)]] demoState))
          \<lparr>activities := [(''a1'', True)]\<rparr>)))
       (self (snd (runBeats 5 [[(''a1'', True)], [(''a1'', True)], [(''a1'', True)]] demoState)))) = Some DeadlineExceeded"
    using th [THEN conjunct2, THEN conjunct2, THEN conjunct1] ne sig_a1 e by metis
  have C: "fst (runBeats 5 [[(''a1'', True)], [(''a1'', True), (''b2'', True)], [], [(''b2'', True)]] demoState) = None \<and>
   finishCalls (snd (runBeats 5 [[(''a1'', True)], [(''a1'', True), (''b2'', True)], [], [(''b2'', True)]] demoState)) = []"
    using th [THEN conjunct2, THEN conjunct2, THEN conjunct2] demo_changesFromStored e by metis
  show ?thesis
    using A B C D pn stalled_sig hp hc seenOnce_prev seenOnce_run demo_changesFromStored stalled_after_beat
    by blast
qed

section \<open>The heartbeat after finalization\<close>

text \<open>
  Claim C7 has the heartbeat stop once the transaction is finalized. In \<open>stalledState\<close>
  the heartbeat tick (timer 1) force-finalizes: the underlying finish has been called.
  Afterwards a new heartbeat timer (3) is pending next to the idle timer, and when it
  fires the heartbeat callback runs again and counts a fourth stale beat.
\<close>

theorem heartbeat_runs_after_finalize:
  "finishCalls (snd (fireTimer 5 1 stalledState)) = [None] \<and>
   map timerCallback (timers (snd (fireTimer 5 1 stalledState))) = [CbFinishIdle (7 / 2), CbBeat] \<and>
   heartbeatTimer (snd (fireTimer 5 1 stalledState)) = 3 \<and>
   heartbeatCounter (snd (fireTimer 5 3 (snd (fireTimer 5 1 stalledState)))) = 4"
  by (simp add: fireTimer_def runCallback_def beat_def demo_defs eval_defs
      Object_keys_def isArrayIndex_def isDigit_def)

text \<open>
  Claim C7, as the code has it: the heartbeat does not stop at finalization. Every
  heartbeat tick that returns normally, a force-finalizing one included, removes the
  timer it had stored and schedules exactly one next tick after 5000 ms, whose identifier
  it stores; and \<open>_finishIdleTransaction\<close> leaves the pending timers, heartbeat timers
  included, as they are.
\<close>

theorem heartbeat_keeps_ticking:
  "(fst (beat d s) = None \<longrightarrow>
      timers (snd (beat d s)) =
        filter (\<lambda>t. timerId t \<noteq> heartbeatTimer s) (timers s) @
          [\<lparr>timerId = nextTimerId s, delay = 5000, timerCallback = CbBeat\<rparr>] \<and>
      heartbeatTimer (snd (beat d s)) = nextTimerId s) \<and>
   timers (snd (finishIdleTransaction d e s)) = timers s"
proof -
  have "timers (snd (beat d s)) =
        filter (\<lambda>t. timerId t \<noteq> heartbeatTimer s) (timers s) @
          [\<lparr>timerId = nextTimerId s, delay = 5000, timerCallback = CbBeat\<rparr>] \<and>
      heartbeatTimer (snd (beat d s)) = nextTimerId s" if ok: "fst (beat d s) = None"
  proof (cases "heartbeatSignature (activities s)")
    case None
    show ?thesis
      by (simp add: beat_empty [OF None] pingHeartbeat_def setTimeout_def clearTimeout_def)
  next
    case (Some g)
    show ?thesis
    proof (cases "prevHeartbeatString s = Some g \<and> 2 \<le> heartbeatCounter s")
      case True
      then have p: "prevHeartbeatString s = Some g" and c: "2 \<le> heartbeatCounter s" by simp_all
      show ?thesis
        using ok finishIdle_frame [of d "now s" "safeguardState s"]
        unfolding beat_stalled [OF Some p c]
        by (auto simp: pingHeartbeat_def setTimeout_def safeguardState_fields
            split: prod.splits option.splits)
    next
      case False
      then have "Some g \<noteq> prevHeartbeatString s \<or> heartbeatCounter s < 2" by auto
      then show ?thesis
        by (simp add: beat_quiet [OF Some] pingHeartbeat_def setTimeout_def clearTimeout_def)
    qed
  qed
  then show ?thesis by (simp add: finishIdle_timers)
qed

theorem heartbeat_keeps_ticking_witness:
  "fst (beat 5 stalledState) = None \<and>
   finishCalls (snd (beat 5 stalledState)) = [None] \<and>
   timers (snd (beat 5 stalledState)) =
     [\<lparr>timerId = 2, delay = 500, timerCallback = CbFinishIdle (7 / 2)\<rparr>,
      \<lparr>timerId = 3, delay = 5000, timerCallback = CbBeat\<rparr>] \<and>
   heartbeatTimer (snd (beat 5 stalledState)) = 3"
proof -
  have ok: "fst (beat 5 stalledState) = None" using stalled_after_beat by simp
  have t: "timers stalledState =
     [\<lparr>timerId = 1, delay = 5000, timerCallback = CbBeat\<rparr>,
      \<lparr>timerId = 2, delay = 500, timerCallback = CbFinishIdle (7 / 2)\<rparr>]"
    and h: "heartbeatTimer stalledState = 1" and n: "nextTimerId stalledState = 3"
    by (simp_all add: demo_defs)
  from heartbeat_keeps_ticking [of 5 stalledState 0] ok
  have "timers (snd (beat 5 stalledState)) =
        filter (\<lambda>t. timerId t \<noteq> heartbeatTimer stalledState) (timers stalledState) @
          [\<lparr>timerId = nextTimerId stalledState, delay = 5000, timerCallback = CbBeat\<rparr>]"
    and "heartbeatTimer (snd (beat 5 stalledState)) = nextTimerId stalledState"
    by blast+
  then show ?thesis using ok stalled_after_beat by (simp add: t h n)
qed

section \<open>A heartbeat tick on an empty activity set\<close>

text \<open>
  Claim C8: a heartbeat tick that finds the activity set empty only clears the old
  heartbeat timer and schedules the next one. It does not throw, the stale-beat counter
  and the stored signature stay as they were, and nothing of a finalize happens: no call
  of the underlying finish, no change to any span or to the recorder, no log entry.
\<close>

theorem beat_on_empty_set:
  "activities s = [] \<Longrightarrow>
   beat d s = (None, pingHeartbeat (clearTimeout (heartbeatTimer s) s)) \<and>
   heartbeatCounter (snd (beat d s)) = heartbeatCounter s \<and>
   prevHeartbeatString (snd (beat d s)) = prevHeartbeatString s \<and>
   finishCalls (snd (beat d s)) = finishCalls s \<and>
   heap (snd (beat d s)) = heap s \<and>
   spanRecorder (snd (beat d s)) = spanRecorder s \<and>
   logs (snd (beat d s)) = logs s"
  by (simp add: beat_def Let_def clearTimeout_def Object_keys_def pingHeartbeat_def setTimeout_def)

theorem beat_on_empty_set_witness:
  "activities (demoState\<lparr>heartbeatCounter := 7\<rparr>) = [] \<and>
   fst (beat 5 (demoState\<lparr>heartbeatCounter := 7\<rparr>)) = None \<and>
   heartbeatCounter (snd (beat 5 (demoState\<lparr>heartbeatCounter := 7\<rparr>))) = 7 \<and>
   finishCalls (snd (beat 5 (demoState\<lparr>heartbeatCounter := 7\<rparr>))) = []"
proof -
  let ?s = "demoState\<lparr>heartbeatCounter := 7\<rparr>"
  have h: "activities ?s = []"
    by (simp add: demo_defs)
  have c: "finishCalls ?s = []"
    by (simp add: demo_defs)
  note t = beat_on_empty_set [OF h, of 5]
  have "fst (beat 5 ?s) = None"
    using t by simp
  moreover have "heartbeatCounter (snd (beat 5 ?s)) = 7"
    using t by (simp add: pingHeartbeat_def setTimeout_def clearTimeout_def)
  moreover have "finishCalls (snd (beat 5 ?s)) = []"
    using t c by (simp add: pingHeartbeat_def setTimeout_def clearTimeout_def)
  ultimately show ?thesis using h by simp
qed

section \<open>Finalize without a span recorder\<close>

text \<open>
  Claim C9 has finalize, when no span recorder was ever set, still call the underlying
  finish (emit the bare transaction), log the condition and not throw. On a freshly
  constructed transaction, which has no recorder, \<open>_finishIdleTransaction\<close> returns
  with no call of the underlying finish recorded: the claim's emit does not happen.
\<close>

theorem finalize_without_recorder_emits_nothing:
  "spanRecorder (newIdleTransaction ''tx'' 0 500 3) = None \<and>
   finishCalls (snd (finishIdleTransaction 5 10 (newIdleTransaction ''tx'' 0 500 3))) = []"
  by (simp add: finishIdleTransaction_def demo_defs field_defs)

text \<open>
  Claim C9, as the code has it: with no span recorder, \<open>_finishIdleTransaction\<close>
  takes its else branch. It does not throw, it appends the one log entry
  "No active IdleTransaction", and it changes nothing else: no reconciliation, and no
  call of the underlying finish.
\<close>

theorem finalize_without_recorder_only_logs:
  "spanRecorder s = None \<Longrightarrow>
   finishIdleTransaction d e s = (None, s\<lparr>logs := logs s @ [LogNoActive]\<rparr>) \<and>
   finishCalls (snd (finishIdleTransaction d e s)) = finishCalls s \<and>
   heap (snd (finishIdleTransaction d e s)) = heap s"
  by (simp add: finishIdleTransaction_def logMsg_def)

theorem finalize_without_recorder_only_logs_witness:
  "spanRecorder (newIdleTransaction ''tx'' 0 500 3) = None \<and>
   fst (finishIdleTransaction 5 10 (newIdleTransaction ''tx'' 0 500 3)) = None \<and>
   logs (snd (finishIdleTransaction 5 10 (newIdleTransaction ''tx'' 0 500 3))) = [LogNoActive] \<and>
   finishCalls (snd (finishIdleTransaction 5 10 (newIdleTransaction ''tx'' 0 500 3))) = []"
proof -
  have h: "spanRecorder (newIdleTransaction ''tx'' 0 500 3) = None"
    by (simp add: demo_defs)
  show ?thesis
    using h finalize_without_recorder_only_logs [OF h, of 5 10]
    by (simp add: demo_defs)
qed

section \<open>Popping an activity\<close>

text \<open>
  Claim C10: \<open>_popActivity(spanId)\<close>, called on the transaction, returns normally;
  it removes \<open>spanId\<close> when the entry is present and truthy, and leaves the set alone
  otherwise; exactly when the set is empty afterwards it schedules one more deferred
  finalize, with delay \<open>idleTimeout\<close> and end timestamp
  \<open>now + idleTimeout / 1000\<close>, whether or not anything was removed. Two pops against an
  empty set therefore leave two more timers pending.
\<close>

theorem popActivity_schedules_on_empty:
  "fst (popActivity ThisTransaction sid s) = None \<and>
   activities (snd (popActivity ThisTransaction sid s)) =
     (if map_of (activities s) sid = Some True then AList.delete sid (activities s)
      else activities s) \<and>
   timers (snd (popActivity ThisTransaction sid s)) =
     (if activities (snd (popActivity ThisTransaction sid s)) = []
      then timers s @ [\<lparr>timerId = nextTimerId s, delay = idleTimeout s,
                        timerCallback = CbFinishIdle (now s + idleTimeout s / 1000)\<rparr>]
      else timers s) \<and>
   length (timers (snd (popActivity ThisTransaction sid'
             (snd (popActivity ThisTransaction sid (s\<lparr>activities := []\<rparr>)))))) =
     length (timers s) + 2"
  by (simp add: popActivity_def Let_def setTimeout_def Object_keys_Nil_iff)

end
